theory Spec2Isabelle
  imports Complex_Main "HOL-Library.AList"
begin

section \<open>JavaScript values\<close>

text \<open>
  The telemetry server (\<^verbatim>\<open>drone_telemetry_server.js\<close>) reads decoded JSON payloads. A
  value is what \<^verbatim>\<open>JSON.parse\<close> returns, or what a property read on such a value returns:
  \<open>JUndefined\<close> for a property that does not exist, \<open>JFunction\<close> and \<open>JPrototype\<close> for
  the members an object or array inherits from \<^verbatim>\<open>Object.prototype\<close> and \<^verbatim>\<open>Array.prototype\<close>.
  Numbers are restricted to integers: the server only tests them for truthiness.
\<close>

datatype jsval =
    JUndefined
  | JNull
  | JBool bool
  | JNum int
  | JStr string
  | JArr "jsval list"
  | JObj "(string \<times> jsval) list"
  | JFunction
  | JPrototype

datatype js_error = TypeError

text \<open>Truthiness, as \<^verbatim>\<open>!x\<close>, \<^verbatim>\<open>x && y\<close> and \<^verbatim>\<open>x || y\<close> read it.\<close>

fun truthy :: "jsval \<Rightarrow> bool" where
  "truthy JUndefined = False"
| "truthy JNull = False"
| "truthy (JBool b) = b"
| "truthy (JNum n) = (n \<noteq> 0)"
| "truthy (JStr s) = (s \<noteq> [])"
| "truthy (JArr xs) = True"
| "truthy (JObj kvs) = True"
| "truthy JFunction = True"
| "truthy JPrototype = True"

text \<open>\<^verbatim>\<open>typeof x === 'object'\<close>: null, arrays and objects.\<close>

fun typeof_object :: "jsval \<Rightarrow> bool" where
  "typeof_object JNull = True"
| "typeof_object (JArr xs) = True"
| "typeof_object (JObj kvs) = True"
| "typeof_object JPrototype = True"
| "typeof_object _ = False"

text \<open>
  The names every object inherits from \<^verbatim>\<open>Object.prototype\<close>, and the further names an
  array inherits from \<^verbatim>\<open>Array.prototype\<close> (ECMAScript 2023). A read of one of them on a
  decoded payload yields a function, or the prototype object for \<^verbatim>\<open>__proto__\<close>.
\<close>

definition object_prototype_names :: "string list" where
  "object_prototype_names =
     [''constructor'', ''hasOwnProperty'', ''isPrototypeOf'', ''propertyIsEnumerable'',
      ''toLocaleString'', ''toString'', ''valueOf'', ''__defineGetter__'',
      ''__defineSetter__'', ''__lookupGetter__'', ''__lookupSetter__'']"

definition array_prototype_names :: "string list" where
  "array_prototype_names =
     [''at'', ''concat'', ''copyWithin'', ''entries'', ''every'', ''fill'', ''filter'',
      ''find'', ''findIndex'', ''findLast'', ''findLastIndex'', ''flat'', ''flatMap'',
      ''forEach'', ''includes'', ''indexOf'', ''join'', ''keys'', ''lastIndexOf'', ''map'',
      ''pop'', ''push'', ''reduce'', ''reduceRight'', ''reverse'', ''shift'', ''slice'',
      ''some'', ''sort'', ''splice'', ''toReversed'', ''toSorted'', ''toSpliced'',
      ''unshift'', ''values'', ''with'']"

definition inherited :: "string list \<Rightarrow> string \<Rightarrow> jsval" where
  "inherited names k =
     (if k = ''__proto__'' then JPrototype
      else if k \<in> set names then JFunction
      else JUndefined)"

text \<open>The decimal form of an array index, as JavaScript writes a property key.\<close>

fun digit_char :: "nat \<Rightarrow> char" where
  "digit_char n = char_of (48 + n)"

fun show_nat :: "nat \<Rightarrow> string" where
  "show_nat n = (if n < 10 then [digit_char n] else show_nat (n div 10) @ [digit_char (n mod 10)])"

text \<open>
  \<^verbatim>\<open>droneData.data\<close>: a property read on \<^verbatim>\<open>null\<close> throws; an object yields its own
  \<^verbatim>\<open>data\<close> property; no other decoded value (boolean, number, string, array) has one.
\<close>

fun js_data_field :: "jsval \<Rightarrow> js_error + jsval" where
  "js_data_field JNull = Inl TypeError"
| "js_data_field JUndefined = Inl TypeError"
| "js_data_field (JObj kvs) =
     Inr (case map_of kvs ''data'' of Some v \<Rightarrow> v | None \<Rightarrow> JUndefined)"
| "js_data_field _ = Inr JUndefined"

text \<open>
  \<^verbatim>\<open>data[key]\<close> for a string key: own properties first (an object's entries; an array's
  elements under their decimal index, and \<^verbatim>\<open>length\<close>), then the prototype chain.
\<close>

fun js_index :: "jsval \<Rightarrow> string \<Rightarrow> jsval" where
  "js_index (JObj kvs) k =
     (case map_of kvs k of
        Some v \<Rightarrow> v
      | None \<Rightarrow> inherited object_prototype_names k)"
| "js_index (JArr xs) k =
     (if k = ''length'' then JNum (int (length xs))
      else (case List.find (\<lambda>i. show_nat i = k) [0..<length xs] of
              Some i \<Rightarrow> xs ! i
            | None \<Rightarrow> inherited (array_prototype_names @ object_prototype_names) k))"
| "js_index _ k = JUndefined"

text \<open>\<^verbatim>\<open>s.split(c)\<close> for a one-character separator, and \<^verbatim>\<open>xs[i]\<close> with \<open>None\<close> for
  \<^verbatim>\<open>undefined\<close>.\<close>

fun split_on :: "char \<Rightarrow> string \<Rightarrow> string list" where
  "split_on c [] = [[]]"
| "split_on c (x # xs) =
     (if x = c then [] # split_on c xs
      else (case split_on c xs of
              [] \<Rightarrow> [[x]]
            | w # ws \<Rightarrow> (x # w) # ws))"

definition nth_opt :: "'a list \<Rightarrow> nat \<Rightarrow> 'a option" where
  "nth_opt xs i = (if i < length xs then Some (xs ! i) else None)"

section \<open>Double-precision arithmetic\<close>

text \<open>
  JavaScript numbers are IEEE 754 doubles: the result of an arithmetic operation, and the
  value of a decimal literal, is the double nearest to the exact result, ties going to
  the even significand. \<open>binade x\<close> is the exponent \<open>e\<close> with \<open>2 ^ e \<le> |x| < 2 ^ (e + 1)\<close>;
  doubles of that size are the multiples of \<open>2 ^ (e - 52)\<close>. Overflow and subnormal
  numbers are left out: no value computed below comes near either.
\<close>

definition round_half_even :: "real \<Rightarrow> int" where
  "round_half_even y =
     (let f = \<lfloor>y\<rfloor>; d = y - of_int f
      in if d < 1 / 2 then f else if 1 / 2 < d then f + 1 else if even f then f else f + 1)"

definition binade :: "real \<Rightarrow> int" where
  "binade x = \<lfloor>log 2 \<bar>x\<bar>\<rfloor>"

definition nearest_double :: "real \<Rightarrow> real" where
  "nearest_double x =
     (if x = 0 then 0
      else (let ulp = 2 powi (binade x - 52)
            in of_int (round_half_even (x / ulp)) * ulp))"

section \<open>Server state\<close>

text \<open>
  A serial number as the handlers hold it: \<open>None\<close> is \<^verbatim>\<open>undefined\<close>, the value of
  \<^verbatim>\<open>topic.split('/')[2]\<close> on a topic with fewer than three segments.
\<close>

type_synonym serial = "string option"

text \<open>One entry of \<^verbatim>\<open>dronesConfig\<close>, and a device record as the registry API returns it
  (\<^verbatim>\<open>droneModel.ts\<close>); optional fields of the latter are \<open>None\<close> when absent.\<close>

record drone_config =
  sn :: string
  name :: string
  "alias" :: string
  userName :: string
  password :: string
  port :: string
  cameras :: "string list"

record db_drone =
  deviceSerialNumber :: string
  deviceName :: string
  metadata_alias :: "string option"
  credentials_userName :: "string option"
  credentials_password :: "string option"
  credentials_port :: "string option"
  db_cameras :: "string list option"

record server_state =
  droneSNs :: "serial list"
  dronesConfig :: "drone_config list"
  databaseConnected :: bool
  retryCount :: nat
  cachedToken :: jsval
  tokenExpiry :: "int option"
  startedStreams :: "serial set"
  droneLastMessageTime :: "(serial \<times> int) list"

definition initial_state :: server_state where
  "initial_state =
     \<lparr>droneSNs = [], dronesConfig = [], databaseConnected = False, retryCount = 0,
      cachedToken = JNull, tokenExpiry = None, startedStreams = {},
      droneLastMessageTime = []\<rparr>"

text \<open>
  What the server sends out: HTTP requests, timers, socket emissions, subscriptions, and
  the un-awaited call of \<^verbatim>\<open>startStream\<close> from the message handler. Every operation
  below returns the effects it causes, in order, with the state it leaves. An outcome of
  a request is an argument of the operation that makes it. An asynchronous operation is
  modelled as it runs when no other handler is scheduled between its \<^verbatim>\<open>await\<close>s; the
  section on the event loop interleaves message handlers with calls of
  \<^verbatim>\<open>startStream\<close>.
\<close>

datatype effect =
    HttpGetDrones
  | HttpGetDrone serial
  | HttpPatchStatus serial bool string
  | HttpLogin
  | HttpStartStream jsval string string
  | Sleep int
  | EmitDroneDataUpdate jsval serial
  | Subscribe string
  | CallStartStream serial


datatype 'a response = Failed | Ok 'a

section \<open>Configuration\<close>

definition MAX_RETRY_ATTEMPTS :: nat where
  "MAX_RETRY_ATTEMPTS = 10"

definition INITIAL_RETRY_DELAY_MS :: real where
  "INITIAL_RETRY_DELAY_MS = 2000"

definition MAX_RETRY_DELAY_MS :: real where
  "MAX_RETRY_DELAY_MS = 30000"

definition INACTIVITY_TIMEOUT_MS :: int where
  "INACTIVITY_TIMEOUT_MS = 25000"

definition CHECK_INTERVAL_MS :: int where
  "CHECK_INTERVAL_MS = 10000"

section \<open>Registry client\<close>

text \<open>
  \<^verbatim>\<open>calculateRetryDelay(attempt)\<close>. The first argument is the double \<^verbatim>\<open>Math.random()\<close>
  returns in this call, a number in \<open>[0, 1)\<close>. \<^verbatim>\<open>INITIAL_RETRY_DELAY_MS * Math.pow(2, attempt)\<close>
  is exact as long as it is finite, and infinite otherwise, so that the minimum with
  \<^verbatim>\<open>MAX_RETRY_DELAY_MS\<close> is the one of the exact values. The literal \<^verbatim>\<open>0.2\<close>, both
  products, the difference and the sum are rounded to the nearest double, the products
  from left to right.
\<close>

definition calculateRetryDelay :: "real \<Rightarrow> nat \<Rightarrow> int" where
  "calculateRetryDelay random attempt =
     (let exponentialDelay = min (INITIAL_RETRY_DELAY_MS * 2 ^ attempt) MAX_RETRY_DELAY_MS;
          jitter = nearest_double
                     (nearest_double (exponentialDelay * nearest_double 0.2) *
                      nearest_double (random - 0.5))
      in \<lfloor>nearest_double (exponentialDelay + jitter)\<rfloor>)"

text \<open>\<^verbatim>\<open>x || d\<close> on an optional string: an absent or empty string gives the default.\<close>

definition or_default :: "string option \<Rightarrow> string \<Rightarrow> string" where
  "or_default x d = (case x of None \<Rightarrow> d | Some s \<Rightarrow> if s = [] then d else s)"

text \<open>The transformation both fetch paths apply to a registry record.\<close>

definition transform :: "db_drone \<Rightarrow> drone_config" where
  "transform drone =
     \<lparr>sn = deviceSerialNumber drone,
      name = deviceName drone,
      alias = or_default (metadata_alias drone) (deviceName drone),
      userName = or_default (credentials_userName drone) [],
      password = or_default (credentials_password drone) [],
      port = or_default (credentials_port drone) ''8554'',
      cameras = (case db_cameras drone of None \<Rightarrow> [] | Some cs \<Rightarrow> cs)\<rparr>"

text \<open>
  \<^verbatim>\<open>loadDronesFromAPI(attempt)\<close>. \<open>get n\<close> is the outcome of the request of attempt
  \<open>n\<close>: \<open>Failed\<close> when anything in the \<^verbatim>\<open>try\<close> block throws before the first
  assignment (network error, timeout, error status, a body without
  \<^verbatim>\<open>data.data.drones\<close>), \<open>Ok drones\<close> otherwise. \<open>random n\<close> is the random number drawn
  after attempt \<open>n\<close> fails. The result is the returned boolean, the requests and sleeps
  in order, and the state afterwards.
\<close>

function loadDronesFromAPI ::
  "(nat \<Rightarrow> db_drone list response) \<Rightarrow> (nat \<Rightarrow> real) \<Rightarrow> nat \<Rightarrow> server_state
     \<Rightarrow> bool \<times> effect list \<times> server_state" where
  "loadDronesFromAPI get random attempt st =
     (case get attempt of
        Ok drones \<Rightarrow>
          (let config = map transform drones
           in (True, [HttpGetDrones],
               st\<lparr>dronesConfig := config,
                  droneSNs := map (\<lambda>drone. Some (sn drone)) config,
                  databaseConnected := True,
                  retryCount := 0\<rparr>))
      | Failed \<Rightarrow>
          if attempt < MAX_RETRY_ATTEMPTS - 1 then
            (let delay = calculateRetryDelay (random attempt) attempt;
                 (ok, fx, st') = loadDronesFromAPI get random (attempt + 1) st
             in (ok, HttpGetDrones # Sleep delay # fx, st'))
          else
            (False, [HttpGetDrones],
             st\<lparr>databaseConnected := False, retryCount := attempt + 1\<rparr>))"
  by pat_completeness auto
termination
  by (relation "measure (\<lambda>(get, random, attempt, st). MAX_RETRY_ATTEMPTS - attempt)") auto

text \<open>\<^verbatim>\<open>getDroneFirstCamera(droneSN)\<close>; \<open>None\<close> is \<^verbatim>\<open>null\<close>.\<close>

definition getDroneFirstCamera :: "server_state \<Rightarrow> serial \<Rightarrow> string option" where
  "getDroneFirstCamera st droneSN =
     (case List.find (\<lambda>d. Some (sn d) = droneSN) (dronesConfig st) of
        None \<Rightarrow> None
      | Some drone \<Rightarrow>
          (case cameras drone of
             [] \<Rightarrow> None
           | c # cs \<Rightarrow> if c = [] then None else Some c))"

text \<open>\<^verbatim>\<open>subscribeToAllDrones()\<close>: one subscription per cached serial.\<close>

definition serial_text :: "serial \<Rightarrow> string" where
  "serial_text s = (case s of None \<Rightarrow> ''undefined'' | Some t \<Rightarrow> t)"

definition subscribeToAllDrones :: "server_state \<Rightarrow> effect list" where
  "subscribeToAllDrones st =
     map (\<lambda>s. Subscribe (''thing/product/'' @ serial_text s @ ''/osd'')) (droneSNs st)"

text \<open>The reconnection supervisor's timer callback.\<close>

definition reconnect_tick ::
  "(nat \<Rightarrow> db_drone list response) \<Rightarrow> (nat \<Rightarrow> real) \<Rightarrow> server_state
     \<Rightarrow> effect list \<times> server_state" where
  "reconnect_tick get random st =
     (if \<not> databaseConnected st then
        (let (success, fx, st') = loadDronesFromAPI get random 0 st
         in if success then (fx @ subscribeToAllDrones st', st') else (fx, st'))
      else ([], st))"


section \<open>Credential cache\<close>

text \<open>\<^verbatim>\<open>token.slice(0, 20)\<close> is callable on strings and arrays only; on any other truthy
  decoded value it throws.\<close>

fun has_slice :: "jsval \<Rightarrow> bool" where
  "has_slice (JStr s) = True"
| "has_slice (JArr xs) = True"
| "has_slice _ = False"

text \<open>
  \<^verbatim>\<open>getAcessToken()\<close>. \<open>now\<close> is \<^verbatim>\<open>Date.now()\<close>; \<open>login\<close> is the outcome of the login
  request, should one be made: \<open>Failed\<close> when the request or the read of
  \<^verbatim>\<open>response.data.data\<close> throws, \<open>Ok token\<close> with the value of \<^verbatim>\<open>access_token\<close>
  otherwise. The result is the returned value (\<open>JNull\<close> for \<^verbatim>\<open>null\<close>), the requests
  made and the state afterwards.
\<close>

definition getAcessToken ::
  "int \<Rightarrow> jsval response \<Rightarrow> server_state \<Rightarrow> jsval \<times> effect list \<times> server_state" where
  "getAcessToken now login st =
     (if truthy (cachedToken st) \<and>
         (case tokenExpiry st of None \<Rightarrow> True | Some expiry \<Rightarrow> expiry = 0 \<or> now < expiry)
      then (cachedToken st, [], st)
      else (case login of
              Failed \<Rightarrow> (JNull, [HttpLogin], st)
            | Ok token \<Rightarrow>
                if truthy token then
                  (let st' = st\<lparr>cachedToken := token\<rparr>
                   in if has_slice token then (token, [HttpLogin], st')
                      else (JNull, [HttpLogin], st'))
                else (JNull, [HttpLogin], st)))"

section \<open>Lifecycle controller\<close>

definition maxFetchAttempts :: nat where
  "maxFetchAttempts = 3"

text \<open>
  The fallback loop of \<^verbatim>\<open>startStream\<close> for a serial that is not cached, entered with
  \<open>fetchAttempts\<close> failures so far. \<open>get n\<close> is the outcome of the request made after
  \<open>n\<close> failures. \<open>None\<close> means that \<^verbatim>\<open>startStream\<close> returns: from inside the loop when
  the attempts are used up, or at the test \<^verbatim>\<open>if (!drone)\<close> after it.
\<close>

function fetchDrone ::
  "(nat \<Rightarrow> db_drone response) \<Rightarrow> serial \<Rightarrow> nat \<Rightarrow> server_state
     \<Rightarrow> drone_config option \<times> effect list \<times> server_state" where
  "fetchDrone get droneSN fetchAttempts st =
     (if fetchAttempts < maxFetchAttempts then
        (case get fetchAttempts of
           Ok dbDrone \<Rightarrow>
             (let drone = transform dbDrone
              in (Some drone, [HttpGetDrone droneSN],
                  st\<lparr>dronesConfig := dronesConfig st @ [drone],
                     droneSNs := (if droneSN \<in> set (droneSNs st) then droneSNs st
                                  else droneSNs st @ [droneSN])\<rparr>))
         | Failed \<Rightarrow>
             (let n = fetchAttempts + 1
              in if n < maxFetchAttempts then
                   (let retryDelay = 1000 * int n;
                        (drone, fx, st') = fetchDrone get droneSN n st
                    in (drone, HttpGetDrone droneSN # Sleep retryDelay # fx, st'))
                 else (None, [HttpGetDrone droneSN], st\<lparr>databaseConnected := False\<rparr>)))
      else (None, [], st))"
  by pat_completeness auto
termination
  by (relation "measure (\<lambda>(get, droneSN, fetchAttempts, st). maxFetchAttempts - fetchAttempts)")
    auto

text \<open>
  \<^verbatim>\<open>startStream(droneSN)\<close> after its entry test. \<open>post\<close> is the outcome of the start
  request: \<open>Failed\<close> when the request or the read of \<^verbatim>\<open>response.data.data.url\<close> throws,
  \<open>Ok (status, url)\<close> otherwise. The start request carries the token, the credential
  string and the video identifier.
\<close>

definition stream_url :: "drone_config \<Rightarrow> string" where
  "stream_url drone =
     ''userName='' @ userName drone @ ''&password='' @ password drone @ ''&port='' @ port drone"

definition video_id :: "serial \<Rightarrow> string \<Rightarrow> string" where
  "video_id droneSN cameraId = serial_text droneSN @ ''/'' @ cameraId @ ''/thermal-0''"

definition startStream_body ::
  "int \<Rightarrow> jsval response \<Rightarrow> (nat \<Rightarrow> db_drone response) \<Rightarrow> (int \<times> string) response
     \<Rightarrow> serial \<Rightarrow> server_state \<Rightarrow> effect list \<times> server_state" where
  "startStream_body now login get post droneSN st =
     (let (token, fx1, st1) = getAcessToken now login st
      in if \<not> truthy token then (fx1, st1)
         else
           (let (found, fx2, st2) =
                  (case List.find (\<lambda>d. Some (sn d) = droneSN) (dronesConfig st1) of
                     Some drone \<Rightarrow> (Some drone, [], st1)
                   | None \<Rightarrow> fetchDrone get droneSN 0 st1)
            in case found of
                 None \<Rightarrow> (fx1 @ fx2, st2)
               | Some drone \<Rightarrow>
                   (case cameras drone of
                      [] \<Rightarrow> (fx1 @ fx2, st2)
                    | cameraId # others \<Rightarrow>
                        if cameraId = [] then (fx1 @ fx2, st2)
                        else
                          (let fx3 = fx1 @ fx2 @
                                 [HttpStartStream token (stream_url drone)
                                    (video_id droneSN cameraId)]
                           in case post of
                                Failed \<Rightarrow> (fx3, st2)
                              | Ok (status, streamUrl) \<Rightarrow>
                                  if status = 200 \<or> status = 201 then
                                    (fx3 @ [HttpPatchStatus droneSN True streamUrl],
                                     st2\<lparr>startedStreams := insert droneSN (startedStreams st2)\<rparr>)
                                  else (fx3, st2)))))"

definition startStream ::
  "int \<Rightarrow> jsval response \<Rightarrow> (nat \<Rightarrow> db_drone response) \<Rightarrow> (int \<times> string) response
     \<Rightarrow> serial \<Rightarrow> server_state \<Rightarrow> effect list \<times> server_state" where
  "startStream now login get post droneSN st =
     (if droneSN \<in> startedStreams st then ([], st)
      else startStream_body now login get post droneSN st)"

section \<open>Telemetry subscriber\<close>

text \<open>
  The \<^verbatim>\<open>message\<close> handler. \<open>parsed\<close> is the result of \<^verbatim>\<open>JSON.parse\<close>, \<open>None\<close> when it
  throws. \<^verbatim>\<open>startStream\<close> is called without \<^verbatim>\<open>await\<close>: the handler records the call and
  returns.
\<close>

definition topic_serial :: "string \<Rightarrow> serial" where
  "topic_serial topic = nth_opt (split_on CHR ''/'' topic) 2"

definition camera_online :: "server_state \<Rightarrow> serial \<Rightarrow> jsval \<Rightarrow> bool" where
  "camera_online st sn' d =
     (case getDroneFirstCamera st sn' of
        None \<Rightarrow> False
      | Some firstCamera \<Rightarrow> truthy (js_index d firstCamera))"

definition on_message ::
  "int \<Rightarrow> string \<Rightarrow> jsval option \<Rightarrow> server_state \<Rightarrow> effect list \<times> server_state" where
  "on_message now topic parsed st =
     (case parsed of
        None \<Rightarrow> ([], st)
      | Some droneData \<Rightarrow>
          (let sn' = topic_serial topic;
               st1 = st\<lparr>droneLastMessageTime := AList.update sn' now (droneLastMessageTime st)\<rparr>;
               fx = [EmitDroneDataUpdate droneData sn']
           in case js_data_field droneData of
                Inl e \<Rightarrow> (fx, st1)
              | Inr d \<Rightarrow>
                  if \<not> truthy d \<or> \<not> typeof_object d then (fx, st1)
                  else if camera_online st1 sn' d then
                    (if sn' \<notin> startedStreams st1 then (fx @ [CallStartStream sn'], st1)
                     else (fx, st1))
                  else
                    (if sn' \<in> startedStreams st1 then
                       (fx @ [HttpPatchStatus sn' False []],
                        st1\<lparr>startedStreams := startedStreams st1 - {sn'}\<rparr>)
                     else (fx, st1))))"

text \<open>A run of messages handled one after another, nothing else happening in between.\<close>

fun on_messages ::
  "(int \<times> string \<times> jsval option) list \<Rightarrow> server_state \<Rightarrow> effect list \<times> server_state" where
  "on_messages [] st = ([], st)"
| "on_messages ((now, topic, parsed) # rest) st =
     (let (fx, st') = on_message now topic parsed st;
          (fx', st'') = on_messages rest st'
      in (fx @ fx', st''))"

section \<open>Inactivity watchdog\<close>

text \<open>
  The watchdog's timer callback: the loop over the entries of \<^verbatim>\<open>droneLastMessageTime\<close>,
  with \<open>now\<close> read once before it. The list of entries is the map in insertion order;
  \<open>AList.update\<close> and \<open>AList.delete\<close> are \<^verbatim>\<open>Map.set\<close> and \<^verbatim>\<open>Map.delete\<close>.
\<close>

fun sweep_entries ::
  "int \<Rightarrow> (serial \<times> int) list \<Rightarrow> server_state \<Rightarrow> effect list \<times> server_state" where
  "sweep_entries now [] st = ([], st)"
| "sweep_entries now ((droneSN, lastMessageTime) # rest) st =
     (let timeSinceLastMessage = now - lastMessageTime
      in if timeSinceLastMessage > INACTIVITY_TIMEOUT_MS then
           (let (fx1, st1) =
                  (if droneSN \<in> startedStreams st then
                     ([HttpPatchStatus droneSN False []],
                      st\<lparr>startedStreams := startedStreams st - {droneSN}\<rparr>)
                   else ([], st));
                st2 = st1\<lparr>droneLastMessageTime := AList.delete droneSN (droneLastMessageTime st1)\<rparr>;
                (fx, st3) = sweep_entries now rest st2
            in (fx1 @ fx, st3))
         else sweep_entries now rest st)"

definition watchdog_tick :: "int \<Rightarrow> server_state \<Rightarrow> effect list \<times> server_state" where
  "watchdog_tick now st = sweep_entries now (droneLastMessageTime st) st"

text \<open>Sweeps at the given instants, one after another, no message arriving in between.\<close>

fun watchdog_ticks :: "int list \<Rightarrow> server_state \<Rightarrow> effect list \<times> server_state" where
  "watchdog_ticks [] st = ([], st)"
| "watchdog_ticks (now # rest) st =
     (let (fx, st') = watchdog_tick now st;
          (fx', st'') = watchdog_ticks rest st'
      in (fx @ fx', st''))"

text \<open>The instants of \<open>n\<close> ticks of a timer of period \<^verbatim>\<open>CHECK_INTERVAL_MS\<close> that first
  fires at \<open>t0\<close>.\<close>

definition tick_times :: "int \<Rightarrow> nat \<Rightarrow> int list" where
  "tick_times t0 n = map (\<lambda>k. t0 + int k * CHECK_INTERVAL_MS) [0..<n]"

section \<open>The event loop\<close>

text \<open>
  Handlers run to completion one at a time. An asynchronous call runs until it has to
  wait for a request or a timer and goes on when that resolves, other handlers running in
  between. A task is a call of \<^verbatim>\<open>startStream\<close> at such a point, with the local variables
  it still needs: waiting for the login request of \<^verbatim>\<open>getAcessToken\<close>, for a fallback
  request after some failed attempts, for the sleep between two of them, for the start
  request, or for the status update that precedes \<^verbatim>\<open>startedStreams.add\<close>.
\<close>

datatype task =
    AwaitLogin serial
  | AwaitFetch serial jsval nat
  | AwaitSleep serial jsval nat
  | AwaitPost serial
  | AwaitPatch serial

fun task_serial :: "task \<Rightarrow> serial" where
  "task_serial (AwaitLogin s) = s"
| "task_serial (AwaitFetch s token n) = s"
| "task_serial (AwaitSleep s token n) = s"
| "task_serial (AwaitPost s) = s"
| "task_serial (AwaitPatch s) = s"

fun awaits_login :: "task \<Rightarrow> bool" where
  "awaits_login (AwaitLogin s) = True"
| "awaits_login t = False"

text \<open>What resolves: the login request, a fallback request, a sleep, the start request,
  the status update.\<close>

datatype answer =
    LoginAnswer "jsval response"
  | DroneAnswer "db_drone response"
  | TimerFired
  | StartAnswer "(int \<times> string) response"
  | PatchAnswer

text \<open>
  The stretches of \<^verbatim>\<open>startStream\<close> between two waits. Each returns the requests it
  sends, the state it leaves and the task it becomes, \<open>None\<close> when the call returns. With
  the device record in hand the call tests the first camera and sends the start request;
  the fallback loop sends its next request while attempts are left; with the token in
  hand the call looks the device up in the cache.
\<close>

definition start_with_drone ::
  "jsval \<Rightarrow> serial \<Rightarrow> drone_config \<Rightarrow> server_state
     \<Rightarrow> effect list \<times> server_state \<times> task option" where
  "start_with_drone token droneSN drone st =
     (case cameras drone of
        [] \<Rightarrow> ([], st, None)
      | cameraId # others \<Rightarrow>
          if cameraId = [] then ([], st, None)
          else ([HttpStartStream token (stream_url drone) (video_id droneSN cameraId)], st,
                Some (AwaitPost droneSN)))"

definition fetch_next ::
  "jsval \<Rightarrow> serial \<Rightarrow> nat \<Rightarrow> server_state \<Rightarrow> effect list \<times> server_state \<times> task option" where
  "fetch_next token droneSN fetchAttempts st =
     (if fetchAttempts < maxFetchAttempts
      then ([HttpGetDrone droneSN], st, Some (AwaitFetch droneSN token fetchAttempts))
      else ([], st, None))"

definition start_with_token ::
  "jsval \<Rightarrow> serial \<Rightarrow> server_state \<Rightarrow> effect list \<times> server_state \<times> task option" where
  "start_with_token token droneSN st =
     (if \<not> truthy token then ([], st, None)
      else (case List.find (\<lambda>d. Some (sn d) = droneSN) (dronesConfig st) of
              Some drone \<Rightarrow> start_with_drone token droneSN drone st
            | None \<Rightarrow> fetch_next token droneSN 0 st))"

text \<open>
  The call itself: the entry test, then the cache test of \<^verbatim>\<open>getAcessToken\<close>. With a
  cached token the call goes on before any other handler runs; without one the login
  request is sent and the call waits for it.
\<close>

definition startStream_call ::
  "int \<Rightarrow> serial \<Rightarrow> server_state \<Rightarrow> effect list \<times> server_state \<times> task option" where
  "startStream_call now droneSN st =
     (if droneSN \<in> startedStreams st then ([], st, None)
      else if truthy (cachedToken st) \<and>
              (case tokenExpiry st of None \<Rightarrow> True | Some expiry \<Rightarrow> expiry = 0 \<or> now < expiry)
      then start_with_token (cachedToken st) droneSN st
      else ([HttpLogin], st, Some (AwaitLogin droneSN)))"

text \<open>
  A task going on with the answer it waited for; \<open>None\<close> when the answer is not of the
  kind the task waits for. The login answer is the rest of \<^verbatim>\<open>getAcessToken\<close>: the token
  is cached here, when the request resolves.
\<close>

fun resume ::
  "task \<Rightarrow> answer \<Rightarrow> server_state \<Rightarrow> (effect list \<times> server_state \<times> task option) option" where
  "resume (AwaitLogin droneSN) (LoginAnswer login) st =
     Some (case login of
             Failed \<Rightarrow> ([], st, None)
           | Ok token \<Rightarrow>
               if truthy token then
                 (let st' = st\<lparr>cachedToken := token\<rparr>
                  in if has_slice token then start_with_token token droneSN st'
                     else ([], st', None))
               else ([], st, None))"
| "resume (AwaitFetch droneSN token fetchAttempts) (DroneAnswer answer) st =
     Some (case answer of
             Ok dbDrone \<Rightarrow>
               (let drone = transform dbDrone
                in start_with_drone token droneSN drone
                     (st\<lparr>dronesConfig := dronesConfig st @ [drone],
                        droneSNs := (if droneSN \<in> set (droneSNs st) then droneSNs st
                                     else droneSNs st @ [droneSN])\<rparr>))
           | Failed \<Rightarrow>
               (let n = fetchAttempts + 1
                in if n < maxFetchAttempts
                   then ([Sleep (1000 * int n)], st, Some (AwaitSleep droneSN token n))
                   else ([], st\<lparr>databaseConnected := False\<rparr>, None)))"
| "resume (AwaitSleep droneSN token fetchAttempts) TimerFired st =
     Some (fetch_next token droneSN fetchAttempts st)"
| "resume (AwaitPost droneSN) (StartAnswer answer) st =
     Some (case answer of
             Failed \<Rightarrow> ([], st, None)
           | Ok (status, streamUrl) \<Rightarrow>
               if status = 200 \<or> status = 201
               then ([HttpPatchStatus droneSN True streamUrl], st, Some (AwaitPatch droneSN))
               else ([], st, None))"
| "resume (AwaitPatch droneSN) PatchAnswer st =
     Some ([], st\<lparr>startedStreams := insert droneSN (startedStreams st)\<rparr>, None)"
| "resume t a st = None"

text \<open>
  The server with the calls in flight and everything sent so far. An event is a message
  arriving, the answer to the task at some position of \<open>inflight\<close>, or a tick of the
  watchdog timer. The message handler's calls of \<^verbatim>\<open>startStream\<close> run up to their first
  wait within the same event. The sweep of the watchdog is run as one step.
\<close>

record system =
  server :: server_state
  inflight :: "task list"
  sent :: "effect list"

datatype event =
    Telemetry int string "jsval option"
  | Resolves nat answer
  | WatchdogTick int

fun start_calls :: "effect list \<Rightarrow> serial list" where
  "start_calls [] = []"
| "start_calls (CallStartStream s # fx) = s # start_calls fx"
| "start_calls (e # fx) = start_calls fx"

fun call_all ::
  "int \<Rightarrow> serial list \<Rightarrow> server_state \<Rightarrow> effect list \<times> server_state \<times> task list" where
  "call_all now [] st = ([], st, [])"
| "call_all now (s # ss) st =
     (let (fx, st', t) = startStream_call now s st;
          (fx', st'', ts) = call_all now ss st'
      in (fx @ fx', st'', (case t of None \<Rightarrow> [] | Some t' \<Rightarrow> [t']) @ ts))"

fun step :: "event \<Rightarrow> system \<Rightarrow> system" where
  "step (Telemetry now topic parsed) sys =
     (let (fx, st') = on_message now topic parsed (server sys);
          (fx', st'', ts) = call_all now (start_calls fx) st'
      in \<lparr>server = st'', inflight = inflight sys @ ts, sent = sent sys @ fx @ fx'\<rparr>)"
| "step (Resolves i a) sys =
     (if i < length (inflight sys) then
        (case resume (inflight sys ! i) a (server sys) of
           None \<Rightarrow> sys
         | Some (fx, st', next) \<Rightarrow>
             \<lparr>server = st',
              inflight =
                (case next of
                   None \<Rightarrow> take i (inflight sys) @ drop (Suc i) (inflight sys)
                 | Some t \<Rightarrow> (inflight sys)[i := t]),
              sent = sent sys @ fx\<rparr>)
      else sys)"
| "step (WatchdogTick now) sys =
     (let (fx, st') = watchdog_tick now (server sys)
      in \<lparr>server = st', inflight = inflight sys, sent = sent sys @ fx\<rparr>)"

fun run :: "event list \<Rightarrow> system \<Rightarrow> system" where
  "run [] sys = sys"
| "run (e # es) sys = run es (step e sys)"

text \<open>The number of calls in flight for a device.\<close>

definition calls_in_flight :: "system \<Rightarrow> serial \<Rightarrow> nat" where
  "calls_in_flight sys s = length (filter (\<lambda>t. task_serial t = s) (inflight sys))"

text \<open>
  A call run to its end with nothing else happening in between: each wait of the task is
  answered at once, the login request with \<open>login\<close>, the fallback request made after \<open>n\<close>
  failures with \<open>get n\<close>, the start request with \<open>post\<close>. \<open>waits_left\<close> bounds the number of
  waits a task still has before it.
\<close>

fun answer_for ::
  "jsval response \<Rightarrow> (nat \<Rightarrow> db_drone response) \<Rightarrow> (int \<times> string) response \<Rightarrow> task \<Rightarrow> answer" where
  "answer_for login get post (AwaitLogin s) = LoginAnswer login"
| "answer_for login get post (AwaitFetch s token n) = DroneAnswer (get n)"
| "answer_for login get post (AwaitSleep s token n) = TimerFired"
| "answer_for login get post (AwaitPost s) = StartAnswer post"
| "answer_for login get post (AwaitPatch s) = PatchAnswer"

fun waits_left :: "task \<Rightarrow> nat" where
  "waits_left (AwaitLogin s) = 2 * maxFetchAttempts + 4"
| "waits_left (AwaitFetch s token n) = 2 * (maxFetchAttempts - n) + 2"
| "waits_left (AwaitSleep s token n) = 2 * (maxFetchAttempts - n) + 3"
| "waits_left (AwaitPost s) = 1"
| "waits_left (AwaitPatch s) = 0"

function complete ::
  "jsval response \<Rightarrow> (nat \<Rightarrow> db_drone response) \<Rightarrow> (int \<times> string) response \<Rightarrow> task
     \<Rightarrow> server_state \<Rightarrow> effect list \<times> server_state" where
  "complete login get post t st =
     (case resume t (answer_for login get post t) st of
        None \<Rightarrow> ([], st)
      | Some (fx, st', None) \<Rightarrow> (fx, st')
      | Some (fx, st', Some t') \<Rightarrow>
          (let (fx', st'') = complete login get post t' st' in (fx @ fx', st'')))"
  by pat_completeness auto
termination
  by (relation "measure (\<lambda>(login, get, post, t, st). waits_left t)")
    (auto simp add: Let_def start_with_token_def start_with_drone_def fetch_next_def
      split: response.splits if_splits option.splits list.splits elim!: resume.elims)


definition run_to_end ::
  "jsval response \<Rightarrow> (nat \<Rightarrow> db_drone response) \<Rightarrow> (int \<times> string) response
     \<Rightarrow> effect list \<times> server_state \<times> task option \<Rightarrow> effect list \<times> server_state" where
  "run_to_end login get post r =
     (case r of
        (fx, st', None) \<Rightarrow> (fx, st')
      | (fx, st', Some t) \<Rightarrow>
          (let (fx', st'') = complete login get post t st' in (fx @ fx', st'')))"

section \<open>Example data\<close>

text \<open>The device of the specification's scenario, a registry that never answers, and a
  random source that always returns one half (no jitter).\<close>

definition bc001 :: drone_config where
  "bc001 =
     \<lparr>sn = ''BC001'', name = ''BodyCam 1'', alias = ''Unit 1'', userName = ''user'',
      password = ''secret'', port = ''8554'', cameras = [''camA'']\<rparr>"

definition idle_state :: server_state where
  "idle_state =
     initial_state\<lparr>dronesConfig := [bc001], droneSNs := [Some ''BC001''],
       databaseConnected := True\<rparr>"

definition streaming_state :: server_state where
  "streaming_state =
     idle_state\<lparr>startedStreams := {Some ''BC001''},
       droneLastMessageTime := [(Some ''BC001'', 1000)]\<rparr>"

definition osd_topic :: string where
  "osd_topic = ''thing/product/BC001/osd''"

definition present_message :: jsval where
  "present_message = JObj [(''data'', JObj [(''camA'', JBool True)])]"

definition absent_message :: jsval where
  "absent_message = JObj [(''data'', JObj [])]"

definition no_data_message :: jsval where
  "no_data_message = JObj [(''timestamp'', JNum 1)]"

definition registry_down :: "nat \<Rightarrow> 'a response" where
  "registry_down n = Failed"

definition no_jitter :: "nat \<Rightarrow> real" where
  "no_jitter n = 1 / 2"

definition idle_system :: system where
  "idle_system = \<lparr>server = idle_state, inflight = [], sent = []\<rparr>"

definition bc002_record :: db_drone where
  "bc002_record =
     \<lparr>deviceSerialNumber = ''BC002'', deviceName = ''BodyCam 2'', metadata_alias = None,
      credentials_userName = None, credentials_password = None, credentials_port = None,
      db_cameras = None\<rparr>"

definition registry_recovers :: "nat \<Rightarrow> db_drone list response" where
  "registry_recovers n = (if n = 0 then Failed else Ok [bc002_record])"

text \<open>A start request to the streaming gateway, and a serial the registry cache does not
  hold.\<close>

fun is_start_request :: "effect \<Rightarrow> bool" where
  "is_start_request (HttpStartStream token url video) = True"
| "is_start_request e = False"

definition unknown_serial :: serial where
  "unknown_serial = Some ''BC404''"

section \<open>Kinds of telemetry message\<close>

text \<open>
  The three ways the handler reads a decoded payload, each the condition of one of its
  branches: the \<^verbatim>\<open>data\<close> section cannot be used (the read throws, or the value is falsy
  or not of type object); the first configured camera of the topic's device has a truthy
  entry in it; or it has none.
\<close>

definition data_section_missing :: "jsval \<Rightarrow> bool" where
  "data_section_missing droneData =
     (case js_data_field droneData of
        Inl e \<Rightarrow> True
      | Inr d \<Rightarrow> \<not> truthy d \<or> \<not> typeof_object d)"

definition indicates_presence :: "server_state \<Rightarrow> string \<Rightarrow> jsval \<Rightarrow> bool" where
  "indicates_presence st topic droneData =
     (case js_data_field droneData of
        Inl e \<Rightarrow> False
      | Inr d \<Rightarrow> truthy d \<and> typeof_object d \<and> camera_online st (topic_serial topic) d)"

definition indicates_absence :: "server_state \<Rightarrow> string \<Rightarrow> jsval \<Rightarrow> bool" where
  "indicates_absence st topic droneData =
     (case js_data_field droneData of
        Inl e \<Rightarrow> False
      | Inr d \<Rightarrow> truthy d \<and> typeof_object d \<and> \<not> camera_online st (topic_serial topic) d)"

text \<open>The state after the handler has recorded the arrival time, and a message list as
  decoded payloads with the emission each causes.\<close>

definition recorded :: "int \<Rightarrow> string \<Rightarrow> server_state \<Rightarrow> server_state" where
  "recorded now topic st =
     st\<lparr>droneLastMessageTime := AList.update (topic_serial topic) now (droneLastMessageTime st)\<rparr>"

definition decoded :: "int \<times> string \<times> jsval \<Rightarrow> int \<times> string \<times> jsval option" where
  "decoded m = (case m of (now, topic, droneData) \<Rightarrow> (now, topic, Some droneData))"

definition emitted :: "int \<times> string \<times> jsval \<Rightarrow> effect" where
  "emitted m = (case m of (now, topic, droneData) \<Rightarrow> EmitDroneDataUpdate droneData (topic_serial topic))"

text \<open>Two presence messages in quick succession, and the scenario's device with an empty
  camera list.\<close>

definition telemetry_burst :: "event list" where
  "telemetry_burst =
     [Telemetry 1000 osd_topic (Some present_message),
      Telemetry 1200 osd_topic (Some present_message)]"

definition bare_drone :: drone_config where
  "bare_drone = bc001\<lparr>cameras := []\<rparr>"

definition bare_state :: server_state where
  "bare_state = idle_state\<lparr>dronesConfig := [bare_drone]\<rparr>"

section \<open>Watchdog vocabulary\<close>

text \<open>
  The serials a sweep at \<open>now\<close> finds silent for longer than the timeout, the stop report
  (the status update with \<^verbatim>\<open>streamIsOn = false\<close> and an empty URL), and
  \<^verbatim>\<open>droneLastMessageTime.get\<close>.
\<close>

definition expired :: "int \<Rightarrow> (serial \<times> int) list \<Rightarrow> serial set" where
  "expired now entries =
     fst ` set (filter (\<lambda>(droneSN, lastMessageTime). now - lastMessageTime > INACTIVITY_TIMEOUT_MS)
                  entries)"

definition stop_report :: "serial \<Rightarrow> effect" where
  "stop_report droneSN = HttpPatchStatus droneSN False []"

definition last_seen :: "server_state \<Rightarrow> serial \<Rightarrow> int option" where
  "last_seen st droneSN = map_of (droneLastMessageTime st) droneSN"

text \<open>A login and a gateway that answer, and the specification's scenario for \<open>BC001\<close>:
  a presence message, the resolution of the start it launches, two absence messages.\<close>

definition gateway_accepts :: "(int \<times> string) response" where
  "gateway_accepts = Ok (200, ''rtsp://gateway/BC001'')"

definition login_accepts :: "jsval response" where
  "login_accepts = Ok (JStr ''token-1'')"

definition scenario :: "event list" where
  "scenario =
     [Telemetry 1000 osd_topic (Some present_message),
      Resolves 0 (LoginAnswer login_accepts),
      Resolves 0 (StartAnswer gateway_accepts),
      Resolves 0 PatchAnswer,
      Telemetry 2000 osd_topic (Some absent_message),
      Telemetry 3000 osd_topic (Some absent_message)]"

text \<open>
  The burst with every request answered; two starts whose login requests overlap, each
  login answered with a token of its own; and a start that resolves only after a sweep
  of the watchdog.
\<close>

definition burst_resolved :: "event list" where
  "burst_resolved =
     telemetry_burst @
     [Resolves 0 (LoginAnswer login_accepts),
      Resolves 1 (LoginAnswer login_accepts),
      Resolves 0 (StartAnswer gateway_accepts),
      Resolves 1 (StartAnswer gateway_accepts),
      Resolves 0 PatchAnswer,
      Resolves 0 PatchAnswer]"



definition late_start :: "event list" where
  "late_start =
     [Telemetry 1000 osd_topic (Some present_message),
      WatchdogTick 27000,
      Resolves 0 (LoginAnswer login_accepts),
      Resolves 0 (StartAnswer gateway_accepts),
      Resolves 0 PatchAnswer]"


section \<open>Properties of the registry client\<close>

declare loadDronesFromAPI.simps [simp del]

subsection \<open>One attempt of the load\<close>

lemma load_failed_step:
  assumes "get attempt = Failed" "attempt < MAX_RETRY_ATTEMPTS - 1"
  shows "loadDronesFromAPI get random attempt st =
     (fst (loadDronesFromAPI get random (attempt + 1) st),
      HttpGetDrones # Sleep (calculateRetryDelay (random attempt) attempt)
        # fst (snd (loadDronesFromAPI get random (attempt + 1) st)),
      snd (snd (loadDronesFromAPI get random (attempt + 1) st)))"
  using assms
  by (subst loadDronesFromAPI.simps) (simp add: Let_def split: prod.splits)

lemma load_failed_unfold:
  assumes "get attempt = Failed" "attempt < MAX_RETRY_ATTEMPTS - 1"
  shows "loadDronesFromAPI get random attempt st =
     (case loadDronesFromAPI get random (attempt + 1) st of
        (ok, fx, st') \<Rightarrow>
          (ok, HttpGetDrones # Sleep (calculateRetryDelay (random attempt) attempt) # fx, st'))"
  using assms
  by (subst loadDronesFromAPI.simps) (simp add: Let_def split: prod.splits)

lemma load_failed_last:
  assumes "get attempt = Failed" "\<not> attempt < MAX_RETRY_ATTEMPTS - 1"
  shows "loadDronesFromAPI get random attempt st =
     (False, [HttpGetDrones], st\<lparr>databaseConnected := False, retryCount := attempt + 1\<rparr>)"
  using assms by (subst loadDronesFromAPI.simps) simp

lemma load_ok:
  assumes "get attempt = Ok drones"
  shows "loadDronesFromAPI get random attempt st =
     (True, [HttpGetDrones],
      st\<lparr>dronesConfig := map transform drones,
         droneSNs := map (\<lambda>drone. Some (sn drone)) (map transform drones),
         databaseConnected := True, retryCount := 0\<rparr>)"
  using assms by (subst loadDronesFromAPI.simps) (simp add: Let_def)

subsection \<open>Rounding to the nearest double\<close>

lemma round_half_even_error: "\<bar>of_int (round_half_even y) - y\<bar> \<le> 1 / 2"
  unfolding round_half_even_def Let_def by (auto simp add: abs_if) linarith+

lemma round_half_even_of_int: "round_half_even (of_int n) = n"
  by (simp add: round_half_even_def)

lemma two_powr_of_int: "(2::real) powr real_of_int k = 2 powi k"
  by (simp add: powr_real_of_int')

lemma two_powi_less_cancel:
  assumes "(2::real) powi m < 2 powi n"
  shows "m < n"
proof (rule ccontr)
  assume "\<not> m < n"
  then have "n \<le> m" by simp
  then have "(2::real) powi n \<le> 2 powi m" by (intro power_int_increasing) simp_all
  then show False using assms by simp
qed

lemma binade_bounds:
  assumes "x \<noteq> 0"
  shows "2 powi binade x \<le> \<bar>x\<bar>" and "\<bar>x\<bar> < 2 powi (binade x + 1)"
proof -
  have pos: "0 < \<bar>x\<bar>" using assms by simp
  have "of_int (binade x) \<le> log 2 \<bar>x\<bar>" unfolding binade_def by simp
  then have "2 powr of_int (binade x) \<le> \<bar>x\<bar>"
    using pos by (simp add: le_log_iff)
  then show "2 powi binade x \<le> \<bar>x\<bar>" by (simp only: two_powr_of_int)
  have "log 2 \<bar>x\<bar> < of_int (binade x + 1)" unfolding binade_def by simp
  then have "\<bar>x\<bar> < 2 powr of_int (binade x + 1)"
    using pos by (simp add: log_less_iff)
  then show "\<bar>x\<bar> < 2 powi (binade x + 1)" by (simp only: two_powr_of_int)
qed

lemma binade_eqI:
  assumes "2 powi e \<le> \<bar>x\<bar>" and "\<bar>x\<bar> < 2 powi (e + 1)"
  shows "binade x = e"
proof -
  have pos: "0 < \<bar>x\<bar>" using assms(1) by (smt (verit) zero_less_power_int)
  have a: "of_int e \<le> log 2 \<bar>x\<bar>"
    using assms(1) pos by (simp add: le_log_iff two_powr_of_int)
  have "\<bar>x\<bar> < 2 powr of_int (e + 1)"
    using assms(2) by (simp only: two_powr_of_int)
  then have "log 2 \<bar>x\<bar> < of_int (e + 1)"
    using pos by (simp only: log_less_iff)
  then have b: "log 2 \<bar>x\<bar> < of_int e + 1" by simp
  show ?thesis unfolding binade_def using a b by linarith
qed

lemma nearest_double_error:
  "\<bar>nearest_double x - x\<bar> \<le> \<bar>x\<bar> / 2 ^ 53"
proof (cases "x = 0")
  case True
  then show ?thesis by (simp add: nearest_double_def)
next
  case False
  define ulp :: real where "ulp = 2 powi (binade x - 52)"
  have ulp_pos: "0 < ulp" unfolding ulp_def by simp
  have fl: "nearest_double x = of_int (round_half_even (x / ulp)) * ulp"
    using False by (simp add: nearest_double_def ulp_def Let_def)
  have "nearest_double x - x = (of_int (round_half_even (x / ulp)) - x / ulp) * ulp"
    using ulp_pos by (simp add: fl algebra_simps)
  then have "\<bar>nearest_double x - x\<bar> = \<bar>of_int (round_half_even (x / ulp)) - x / ulp\<bar> * ulp"
    using ulp_pos by (simp add: abs_mult)
  also have "\<dots> \<le> 1 / 2 * ulp"
    using round_half_even_error [of "x / ulp"] ulp_pos by (intro mult_right_mono) simp_all
  also have "1 / 2 * ulp = 2 powi binade x / 2 ^ 53"
    unfolding ulp_def by (simp add: power_int_diff)
  also have "\<dots> \<le> \<bar>x\<bar> / 2 ^ 53"
    using binade_bounds(1) [OF False] by (simp add: divide_right_mono)
  finally show ?thesis .
qed

lemma nearest_double_of_int:
  assumes "\<bar>n\<bar> < 2 ^ 53"
  shows "nearest_double (of_int n) = of_int n"
proof (cases "n = 0")
  case True
  then show ?thesis by (simp add: nearest_double_def)
next
  case False
  let ?x = "real_of_int n"
  define e where "e = binade ?x"
  have x0: "?x \<noteq> 0" using False by simp
  have lo: "2 powi e \<le> \<bar>?x\<bar>" unfolding e_def by (rule binade_bounds(1) [OF x0])
  have "\<bar>?x\<bar> < 2 ^ 53" using assms by (metis of_int_abs of_int_less_numeral_power_cancel_iff)
  then have "(2::real) powi e < 2 powi 53" using lo by simp
  then have "e < 53" by (rule two_powi_less_cancel)
  then have e_le: "e \<le> 52" by simp
  have "1 \<le> \<bar>n\<bar>" using False by simp
  then have "1 \<le> \<bar>?x\<bar>" by (metis of_int_abs of_int_1_le_iff)
  then have "(2::real) powi 0 < 2 powi (e + 1)"
    using binade_bounds(2) [OF x0] unfolding e_def by simp
  then have "0 < e + 1" by (rule two_powi_less_cancel)
  then have e_ge: "0 \<le> e" by simp
  define k where "k = nat (52 - e)"
  have ulp: "(2::real) powi (e - 52) = 1 / 2 ^ k"
  proof -
    have em: "e - 52 = - int k" using e_le by (simp add: k_def)
    show ?thesis unfolding em by (simp add: power_int_minus_divide)
  qed
  have "?x / (1 / 2 ^ k) = of_int (n * 2 ^ k)" by simp
  then have "round_half_even (?x / (1 / 2 ^ k)) = n * 2 ^ k"
    by (simp only: round_half_even_of_int)
  then show ?thesis
    using x0 by (simp add: nearest_double_def Let_def e_def [symmetric] ulp)
qed

lemma nearest_double_zero: "nearest_double 0 = 0"
  by (simp add: nearest_double_def)

lemma nearest_double_eval:
  assumes "2 powi e \<le> \<bar>x\<bar>" and "\<bar>x\<bar> < 2 powi (e + 1)"
  shows "nearest_double x = of_int (round_half_even (x / 2 powi (e - 52))) * 2 powi (e - 52)"
proof -
  have "x \<noteq> 0" using assms(1) by (smt (verit) zero_less_power_int abs_zero)
  then show ?thesis
    by (simp add: nearest_double_def Let_def binade_eqI [OF assms])
qed

lemma double_one_fifth: "nearest_double 0.2 = 3602879701896397 / 2 ^ 54"
proof -
  have "nearest_double 0.2 =
      of_int (round_half_even (0.2 / 2 powi (-3 - 52))) * 2 powi (-3 - 52)"
    by (rule nearest_double_eval) (simp_all add: power_int_minus_divide)
  also have "\<dots> = 3602879701896397 / 2 ^ 54"
    by (simp add: power_int_minus_divide round_half_even_def Let_def)
  finally show ?thesis .
qed

lemma nearest_double_close: "\<bar>nearest_double x - x\<bar> \<le> \<bar>x\<bar> / 1000"
proof -
  have "\<bar>x\<bar> / 2 ^ 53 \<le> \<bar>x\<bar> / 1000"
    by (intro divide_left_mono) simp_all
  then show ?thesis using nearest_double_error [of x] by linarith
qed

lemma nearest_double_abs: "\<bar>nearest_double x\<bar> \<le> 1001 / 1000 * \<bar>x\<bar>"
  using nearest_double_close [of x] by linarith

subsection \<open>The delay between attempts\<close>

lemma exponentialDelay_range:
  "2000 \<le> min (INITIAL_RETRY_DELAY_MS * 2 ^ attempt) MAX_RETRY_DELAY_MS"
  "min (INITIAL_RETRY_DELAY_MS * 2 ^ attempt) MAX_RETRY_DELAY_MS \<le> 30000"
proof -
  have "(1::real) \<le> 2 ^ attempt" by simp
  then show "2000 \<le> min (INITIAL_RETRY_DELAY_MS * 2 ^ attempt) MAX_RETRY_DELAY_MS"
    by (simp add: INITIAL_RETRY_DELAY_MS_def MAX_RETRY_DELAY_MS_def)
  show "min (INITIAL_RETRY_DELAY_MS * 2 ^ attempt) MAX_RETRY_DELAY_MS \<le> 30000"
    by (simp add: MAX_RETRY_DELAY_MS_def)
qed

lemma retry_delay_bounds:
  assumes "0 \<le> r" "r < 1"
  shows "8 / 10 * min (INITIAL_RETRY_DELAY_MS * 2 ^ attempt) MAX_RETRY_DELAY_MS
           \<le> real_of_int (calculateRetryDelay r attempt)"
    and "real_of_int (calculateRetryDelay r attempt)
           \<le> 12 / 10 * min (INITIAL_RETRY_DELAY_MS * 2 ^ attempt) MAX_RETRY_DELAY_MS"
proof -
  define E where "E = min (INITIAL_RETRY_DELAY_MS * 2 ^ attempt) MAX_RETRY_DELAY_MS"
  define c where "c = nearest_double 0.2"
  define a where "a = nearest_double (E * c)"
  define b where "b = nearest_double (r - 0.5)"
  define j where "j = nearest_double (a * b)"
  define s where "s = nearest_double (E + j)"
  have E: "2000 \<le> E" unfolding E_def by (rule exponentialDelay_range)
  have d: "calculateRetryDelay r attempt = \<lfloor>s\<rfloor>"
    by (simp add: calculateRetryDelay_def Let_def E_def c_def a_def b_def j_def s_def)
  have c: "\<bar>c\<bar> \<le> 1001 / 5000"
    unfolding c_def using nearest_double_abs [of "0.2"] by simp
  have "\<bar>a\<bar> \<le> 1001 / 1000 * \<bar>E * c\<bar>" unfolding a_def by (rule nearest_double_abs)
  moreover have "\<bar>E * c\<bar> \<le> E * (1001 / 5000)"
    using E c by (simp add: abs_mult mult_left_mono)
  ultimately have a: "\<bar>a\<bar> \<le> E * (201 / 1000)" by linarith
  define m where "m = \<bar>r - 0.5\<bar>"
  have "\<bar>b\<bar> \<le> 1001 / 1000 * m" unfolding b_def m_def by (rule nearest_double_abs)
  moreover have "m \<le> 1 / 2" unfolding m_def using assms by (simp add: abs_if)
  ultimately have b: "\<bar>b\<bar> \<le> 501 / 1000" by linarith
  have "\<bar>j\<bar> \<le> 1001 / 1000 * \<bar>a * b\<bar>" unfolding j_def by (rule nearest_double_abs)
  moreover have "\<bar>a * b\<bar> \<le> E * (201 / 1000) * (501 / 1000)"
    unfolding abs_mult using a b by (intro mult_mono) simp_all
  ultimately have j: "\<bar>j\<bar> \<le> E * (101 / 1000)" using E by linarith
  have s1: "\<bar>s - (E + j)\<bar> \<le> \<bar>E + j\<bar> / 1000" unfolding s_def by (rule nearest_double_close)
  have s2: "\<bar>E + j\<bar> \<le> E + \<bar>j\<bar>" using E by linarith
  have s3: "\<bar>s - E\<bar> \<le> \<bar>s - (E + j)\<bar> + \<bar>j\<bar>" by linarith
  define p where "p = \<bar>s - (E + j)\<bar>"
  define q where "q = \<bar>E + j\<bar>"
  define w where "w = \<bar>j\<bar>"
  have "p \<le> q / 1000" "q \<le> E + w" "w \<le> E * (101 / 1000)" "\<bar>s - E\<bar> \<le> p + w"
    using s1 s2 s3 j unfolding p_def q_def w_def by simp_all
  then have s: "\<bar>s - E\<bar> \<le> E * (11 / 100)" using E by linarith
  have "s - 1 < real_of_int \<lfloor>s\<rfloor>" by linarith
  then have "8 / 10 * E \<le> real_of_int \<lfloor>s\<rfloor>" using s E by linarith
  then show "8 / 10 * min (INITIAL_RETRY_DELAY_MS * 2 ^ attempt) MAX_RETRY_DELAY_MS
           \<le> real_of_int (calculateRetryDelay r attempt)"
    by (simp add: d E_def)
  have "real_of_int \<lfloor>s\<rfloor> \<le> s" by simp
  then have "real_of_int \<lfloor>s\<rfloor> \<le> 12 / 10 * E" using s E by linarith
  then show "real_of_int (calculateRetryDelay r attempt)
           \<le> 12 / 10 * min (INITIAL_RETRY_DELAY_MS * 2 ^ attempt) MAX_RETRY_DELAY_MS"
    by (simp add: d E_def)
qed

lemma retry_delay_no_jitter:
  "calculateRetryDelay (1 / 2) attempt = min (2000 * 2 ^ attempt) 30000"
proof -
  have m: "min (2000 * 2 ^ attempt) (30000::real) = real_of_int (min (2000 * 2 ^ attempt) 30000)"
    by (simp add: of_int_min)
  have "\<bar>min (2000 * 2 ^ attempt) (30000::int)\<bar> < 2 ^ 53"
    by (simp add: min_def)
  then have "nearest_double (real_of_int (min (2000 * 2 ^ attempt) 30000)) =
      real_of_int (min (2000 * 2 ^ attempt) 30000)"
    by (rule nearest_double_of_int)
  then show ?thesis
    by (simp add: calculateRetryDelay_def INITIAL_RETRY_DELAY_MS_def MAX_RETRY_DELAY_MS_def
        nearest_double_zero m)
qed

lemma retry_delay_not_linear:
  assumes "0 \<le> r1" "r1 < 1" "0 \<le> r4" "r4 < 1"
  shows "calculateRetryDelay r4 3 \<noteq> 4 * calculateRetryDelay r1 0"
proof -
  have a: "real_of_int (calculateRetryDelay r1 0) \<le> 2400"
    using retry_delay_bounds(2) [OF assms(1,2), of 0]
    by (simp add: INITIAL_RETRY_DELAY_MS_def MAX_RETRY_DELAY_MS_def)
  have b: "12800 \<le> real_of_int (calculateRetryDelay r4 3)"
    using retry_delay_bounds(1) [OF assms(3,4), of 3]
    by (simp add: INITIAL_RETRY_DELAY_MS_def MAX_RETRY_DELAY_MS_def)
  from a have "calculateRetryDelay r1 0 \<le> 2400" by linarith
  moreover from b have "12800 \<le> calculateRetryDelay r4 3" by linarith
  ultimately show ?thesis by linarith
qed

lemma retry_delay_rounds_up:
  "calculateRetryDelay (1 - 1 / 2 ^ 53) 4 = 33000"
proof -
  have a: "nearest_double (30000 * (3602879701896397 / 2 ^ 54)) = 6000"
  proof -
    have "nearest_double (30000 * (3602879701896397 / 2 ^ 54)) =
        of_int (round_half_even (30000 * (3602879701896397 / 2 ^ 54) / 2 powi (12 - 52)))
          * 2 powi (12 - 52)"
      by (rule nearest_double_eval) (simp_all add: power_int_minus_divide)
    also have "\<dots> = 6000"
      by (simp add: power_int_minus_divide round_half_even_def Let_def)
    finally show ?thesis .
  qed
  have b: "nearest_double (1 - 1 / 2 ^ 53 - 0.5) = 1 / 2 - 1 / 2 ^ 53"
  proof -
    have "nearest_double (1 - 1 / 2 ^ 53 - 0.5) =
        of_int (round_half_even ((1 - 1 / 2 ^ 53 - 0.5) / 2 powi (-2 - 52))) * 2 powi (-2 - 52)"
      by (rule nearest_double_eval) (simp_all add: power_int_minus_divide)
    also have "\<dots> = 1 / 2 - 1 / 2 ^ 53"
      by (simp add: power_int_minus_divide round_half_even_def Let_def)
    finally show ?thesis .
  qed
  have j: "nearest_double (6000 * (1 / 2 - 1 / 2 ^ 53)) = 3000 - 1 / 2 ^ 41"
  proof -
    have "nearest_double (6000 * (1 / 2 - 1 / 2 ^ 53)) =
        of_int (round_half_even (6000 * (1 / 2 - 1 / 2 ^ 53) / 2 powi (11 - 52))) * 2 powi (11 - 52)"
      by (rule nearest_double_eval) (simp_all add: power_int_minus_divide)
    also have "\<dots> = 3000 - 1 / 2 ^ 41"
      by (simp add: power_int_minus_divide round_half_even_def Let_def)
    finally show ?thesis .
  qed
  have s: "nearest_double (30000 + (3000 - 1 / 2 ^ 41)) = 33000"
  proof -
    have "nearest_double (30000 + (3000 - 1 / 2 ^ 41)) =
        of_int (round_half_even ((30000 + (3000 - 1 / 2 ^ 41)) / 2 powi (15 - 52))) * 2 powi (15 - 52)"
      by (rule nearest_double_eval) (simp_all add: power_int_minus_divide)
    also have "\<dots> = 33000"
      by (simp add: power_int_minus_divide round_half_even_def Let_def)
    finally show ?thesis .
  qed
  have "calculateRetryDelay (1 - 1 / 2 ^ 53) 4 =
      \<lfloor>nearest_double (30000 + nearest_double
         (nearest_double (30000 * nearest_double 0.2) * nearest_double (1 - 1 / 2 ^ 53 - 0.5)))\<rfloor>"
    by (simp add: calculateRetryDelay_def INITIAL_RETRY_DELAY_MS_def MAX_RETRY_DELAY_MS_def Let_def)
  also have "\<dots> = \<lfloor>nearest_double (30000 + nearest_double
         (nearest_double (30000 * (3602879701896397 / 2 ^ 54)) * (1 / 2 - 1 / 2 ^ 53)))\<rfloor>"
    by (simp only: double_one_fifth b)
  also have "\<dots> = \<lfloor>nearest_double (30000 + nearest_double (6000 * (1 / 2 - 1 / 2 ^ 53)))\<rfloor>"
    by (simp only: a)
  also have "\<dots> = \<lfloor>nearest_double (30000 + (3000 - 1 / 2 ^ 41))\<rfloor>"
    by (simp only: j)
  also have "\<dots> = \<lfloor>33000 :: real\<rfloor>"
    by (simp only: s)
  also have "\<dots> = 33000" by simp
  finally show ?thesis .
qed

lemma load_registry_down:
  "loadDronesFromAPI registry_down no_jitter 0 st =
     (False,
      [HttpGetDrones, Sleep 2000, HttpGetDrones, Sleep 4000, HttpGetDrones, Sleep 8000,
       HttpGetDrones, Sleep 16000, HttpGetDrones, Sleep 30000, HttpGetDrones, Sleep 30000,
       HttpGetDrones, Sleep 30000, HttpGetDrones, Sleep 30000, HttpGetDrones, Sleep 30000,
       HttpGetDrones],
      st\<lparr>databaseConnected := False, retryCount := 10\<rparr>)"
  by (simp add: load_failed_unfold load_failed_last registry_down_def no_jitter_def
      MAX_RETRY_ATTEMPTS_def retry_delay_no_jitter)

lemma load_registry_recovers:
  "loadDronesFromAPI registry_recovers no_jitter 0 st =
     (True, [HttpGetDrones, Sleep 2000, HttpGetDrones],
      st\<lparr>dronesConfig := [transform bc002_record], droneSNs := [Some ''BC002''],
         databaseConnected := True, retryCount := 0\<rparr>)"
  by (simp add: load_failed_unfold load_ok registry_recovers_def MAX_RETRY_ATTEMPTS_def
      retry_delay_no_jitter no_jitter_def transform_def bc002_record_def)

text \<open>
  Claim C3, as amended. After a failed attempt that is not the last one (\<open>attempt\<close> counts
  from 0, so this is attempt number \<open>attempt + 1\<close>), the load sleeps before the next
  request for \<^verbatim>\<open>calculateRetryDelay(attempt)\<close> milliseconds. With
  \<open>E = min (2000 * 2 ^ attempt) 30000\<close>, that delay is \<open>E\<close> when the random number drawn
  is one half, and for every random number it lies within 20 percent of \<open>E\<close>: a delay that
  doubles from attempt to attempt up to a cap of 30 seconds, with a random jitter.
\<close>

theorem load_retry_delay:
  assumes "get attempt = Failed" and "attempt < MAX_RETRY_ATTEMPTS - 1"
    and "0 \<le> random attempt" and "random attempt < 1"
  shows "\<exists>fx.
      fst (snd (loadDronesFromAPI get random attempt st)) =
        HttpGetDrones # Sleep (calculateRetryDelay (random attempt) attempt) # fx \<and>
      8 / 10 * min (2000 * 2 ^ attempt) 30000
        \<le> real_of_int (calculateRetryDelay (random attempt) attempt) \<and>
      real_of_int (calculateRetryDelay (random attempt) attempt)
        \<le> 12 / 10 * min (2000 * 2 ^ attempt) 30000 \<and>
      (random attempt = 1 / 2 \<longrightarrow>
         calculateRetryDelay (random attempt) attempt = min (2000 * 2 ^ attempt) 30000)"
proof -
  let ?d = "calculateRetryDelay (random attempt) attempt"
  have "fst (snd (loadDronesFromAPI get random attempt st)) =
      HttpGetDrones # Sleep ?d # fst (snd (loadDronesFromAPI get random (attempt + 1) st))"
    using load_failed_step [where get = get and attempt = attempt and random = random
        and st = st, OF assms(1,2)] by simp
  moreover have "8 / 10 * min (2000 * 2 ^ attempt) 30000 \<le> real_of_int ?d"
    using retry_delay_bounds(1) [OF assms(3,4), of attempt]
    by (simp add: INITIAL_RETRY_DELAY_MS_def MAX_RETRY_DELAY_MS_def)
  moreover have "real_of_int ?d \<le> 12 / 10 * min (2000 * 2 ^ attempt) 30000"
    using retry_delay_bounds(2) [OF assms(3,4), of attempt]
    by (simp add: INITIAL_RETRY_DELAY_MS_def MAX_RETRY_DELAY_MS_def)
  moreover have "random attempt = 1 / 2 \<longrightarrow> ?d = min (2000 * 2 ^ attempt) 30000"
  proof
    assume half: "random attempt = 1 / 2"
    show "?d = min (2000 * 2 ^ attempt) 30000"
      unfolding half by (rule retry_delay_no_jitter)
  qed
  ultimately show ?thesis by blast
qed

text \<open>Witness for C3: the third attempt against a registry that is down, without jitter,
  is followed by a sleep of 8000 milliseconds.\<close>

theorem load_retry_delay_witness:
  "(\<exists>fx. fst (snd (loadDronesFromAPI registry_down no_jitter 2 idle_state)) =
      HttpGetDrones # Sleep 8000 # fx) \<and>
   calculateRetryDelay (no_jitter 2) 2 = 8000"
proof -
  have h1: "registry_down 2 = (Failed :: db_drone list response)" by (simp add: registry_down_def)
  have h2: "2 < MAX_RETRY_ATTEMPTS - 1" by (simp add: MAX_RETRY_ATTEMPTS_def)
  have h3: "0 \<le> no_jitter 2" "no_jitter 2 < 1" by (simp_all add: no_jitter_def)
  have h4: "no_jitter 2 = 1 / 2" by (simp add: no_jitter_def)
  from load_retry_delay [where get = registry_down and attempt = 2 and random = no_jitter
      and st = idle_state, OF h1 h2 h3]
  obtain fx where t: "fst (snd (loadDronesFromAPI registry_down no_jitter 2 idle_state)) =
      HttpGetDrones # Sleep (calculateRetryDelay (no_jitter 2) 2) # fx"
    and i: "no_jitter 2 = 1 / 2 \<longrightarrow>
      calculateRetryDelay (no_jitter 2) 2 = min (2000 * 2 ^ 2) 30000"
    by blast
  have "calculateRetryDelay (no_jitter 2) 2 = min (2000 * 2 ^ 2) 30000"
    using i h4 by (rule mp)
  then have d: "calculateRetryDelay (no_jitter 2) 2 = 8000" by simp
  show ?thesis using t unfolding d by (simp add: d)
qed

text \<open>
  Counterexample to C3 as stated (delay equal to a fixed base unit times the attempt
  number): without jitter the sleep after attempt 1 is 2000 milliseconds, which fixes the
  base unit, and the sleep after attempt 3 is 8000 milliseconds, not 6000. By the lemma
  \<open>retry_delay_not_linear\<close> no random numbers make the delays after attempts 1 and 4 fit
  one base unit.
\<close>

theorem load_delay_not_linear_example:
  "fst (snd (loadDronesFromAPI registry_down no_jitter 0 idle_state)) ! 1 = Sleep 2000 \<and>
   fst (snd (loadDronesFromAPI registry_down no_jitter 0 idle_state)) ! 5 = Sleep 8000 \<and>
   (8000 :: int) \<noteq> 3 * 2000"
  by (simp add: load_registry_down)

subsection \<open>The cached device set\<close>

text \<open>
  Claim C4. A load that returns failure leaves \<^verbatim>\<open>dronesConfig\<close> and \<^verbatim>\<open>droneSNs\<close> as they
  were. A load that returns success has replaced both, wholesale, by the transformed
  device list of the first attempt that succeeded.
\<close>

theorem load_all_or_nothing:
  "(fst (loadDronesFromAPI get random attempt st) \<longrightarrow>
      (\<exists>n drones. attempt \<le> n \<and> get n = Ok drones \<and>
         (\<forall>m. attempt \<le> m \<and> m < n \<longrightarrow> get m = Failed) \<and>
         dronesConfig (snd (snd (loadDronesFromAPI get random attempt st))) = map transform drones \<and>
         droneSNs (snd (snd (loadDronesFromAPI get random attempt st))) =
           map (\<lambda>drone. Some (sn drone)) (map transform drones))) \<and>
   (\<not> fst (loadDronesFromAPI get random attempt st) \<longrightarrow>
      dronesConfig (snd (snd (loadDronesFromAPI get random attempt st))) = dronesConfig st \<and>
      droneSNs (snd (snd (loadDronesFromAPI get random attempt st))) = droneSNs st)"
proof (induction get random attempt st rule: loadDronesFromAPI.induct)
  case (1 get random attempt st)
  show ?case
  proof (cases "get attempt")
    case (Ok drones)
    have "attempt \<le> attempt \<and> get attempt = Ok drones \<and>
        (\<forall>m. attempt \<le> m \<and> m < attempt \<longrightarrow> get m = Failed)"
      using Ok by auto
    then show ?thesis
      unfolding load_ok [where get = get and attempt = attempt, OF Ok] by (intro conjI impI exI [of _ attempt] exI [of _ drones]) simp_all
  next
    case Failed
    show ?thesis
    proof (cases "attempt < MAX_RETRY_ATTEMPTS - 1")
      case True
      note IH = "1.IH" [OF Failed True refl]
      let ?r = "loadDronesFromAPI get random (attempt + 1) st"
      have step: "loadDronesFromAPI get random attempt st =
          (fst ?r, HttpGetDrones # Sleep (calculateRetryDelay (random attempt) attempt) # fst (snd ?r),
           snd (snd ?r))"
        using load_failed_step [where get = get and attempt = attempt and random = random
            and st = st, OF Failed True] .
      show ?thesis
      proof (intro conjI impI)
        assume "fst (loadDronesFromAPI get random attempt st)"
        then have "fst ?r" by (simp add: step)
        with IH obtain n drones where n: "attempt + 1 \<le> n" "get n = Ok drones"
          "\<forall>m. attempt + 1 \<le> m \<and> m < n \<longrightarrow> get m = Failed"
          "dronesConfig (snd (snd ?r)) = map transform drones"
          "droneSNs (snd (snd ?r)) = map (\<lambda>drone. Some (sn drone)) (map transform drones)"
          by blast
        have "\<forall>m. attempt \<le> m \<and> m < n \<longrightarrow> get m = Failed"
        proof (intro allI impI)
          fix m assume m: "attempt \<le> m \<and> m < n"
          show "get m = Failed"
          proof (cases "m = attempt")
            case True then show ?thesis using Failed by simp
          next
            case False
            then have "attempt + 1 \<le> m \<and> m < n" using m by simp
            then show ?thesis using n(3) by blast
          qed
        qed
        moreover have "attempt \<le> n" using n(1) by simp
        ultimately show "\<exists>n drones. attempt \<le> n \<and> get n = Ok drones \<and>
           (\<forall>m. attempt \<le> m \<and> m < n \<longrightarrow> get m = Failed) \<and>
           dronesConfig (snd (snd (loadDronesFromAPI get random attempt st))) = map transform drones \<and>
           droneSNs (snd (snd (loadDronesFromAPI get random attempt st))) =
             map (\<lambda>drone. Some (sn drone)) (map transform drones)"
          using n(2,4,5) by (simp add: step) blast
      next
        assume "\<not> fst (loadDronesFromAPI get random attempt st)"
        then have "\<not> fst ?r" by (simp add: step)
        with IH show "dronesConfig (snd (snd (loadDronesFromAPI get random attempt st))) = dronesConfig st"
          by (simp add: step)
      next
        assume "\<not> fst (loadDronesFromAPI get random attempt st)"
        then have "\<not> fst ?r" by (simp add: step)
        with IH show "droneSNs (snd (snd (loadDronesFromAPI get random attempt st))) = droneSNs st"
          by (simp add: step)
      qed
    next
      case False
      show ?thesis unfolding load_failed_last [where get = get and attempt = attempt, OF Failed False] by simp
    qed
  qed
qed

text \<open>Witness for C4: a failed load keeps the cached device, a load that succeeds on its
  second attempt replaces it.\<close>

theorem load_all_or_nothing_witness:
  "\<not> fst (loadDronesFromAPI registry_down no_jitter 0 idle_state) \<and>
   dronesConfig (snd (snd (loadDronesFromAPI registry_down no_jitter 0 idle_state))) = [bc001] \<and>
   droneSNs (snd (snd (loadDronesFromAPI registry_down no_jitter 0 idle_state))) = [Some ''BC001''] \<and>
   fst (loadDronesFromAPI registry_recovers no_jitter 0 idle_state) \<and>
   dronesConfig (snd (snd (loadDronesFromAPI registry_recovers no_jitter 0 idle_state))) =
     [transform bc002_record]"
proof -
  define L where "L = loadDronesFromAPI registry_down no_jitter 0 idle_state"
  have a: "\<not> fst L" by (simp add: L_def load_registry_down)
  note t = load_all_or_nothing [where get = registry_down and random = no_jitter and attempt = 0
      and st = idle_state, folded L_def]
  from t a have "dronesConfig (snd (snd L)) = dronesConfig idle_state \<and>
      droneSNs (snd (snd L)) = droneSNs idle_state"
    by blast
  then have b: "dronesConfig (snd (snd L)) = [bc001] \<and> droneSNs (snd (snd L)) = [Some ''BC001'']"
    by (simp add: idle_state_def)
  have c: "fst (loadDronesFromAPI registry_recovers no_jitter 0 idle_state) \<and>
     dronesConfig (snd (snd (loadDronesFromAPI registry_recovers no_jitter 0 idle_state))) =
       [transform bc002_record]"
    by (simp add: load_registry_recovers)
  show ?thesis using a b c unfolding L_def by blast
qed

subsection \<open>Exhausted attempts\<close>

lemma load_all_failed:
  assumes "\<forall>n<MAX_RETRY_ATTEMPTS. get n = Failed"
    and "attempt < MAX_RETRY_ATTEMPTS"
  shows "fst (loadDronesFromAPI get random attempt st) = False \<and>
     snd (snd (loadDronesFromAPI get random attempt st)) =
       st\<lparr>databaseConnected := False, retryCount := MAX_RETRY_ATTEMPTS\<rparr> \<and>
     count_list (fst (snd (loadDronesFromAPI get random attempt st))) HttpGetDrones =
       MAX_RETRY_ATTEMPTS - attempt"
  using assms
proof (induction get random attempt st rule: loadDronesFromAPI.induct)
  case (1 get random attempt st)
  have Failed: "get attempt = Failed" using "1.prems" by simp
  show ?case
  proof (cases "attempt < MAX_RETRY_ATTEMPTS - 1")
    case True
    have next_ok: "attempt + 1 < MAX_RETRY_ATTEMPTS" using True by simp
    note IH = "1.IH" [OF Failed True refl "1.prems"(1) next_ok]
    have step: "loadDronesFromAPI get random attempt st =
        (fst (loadDronesFromAPI get random (attempt + 1) st),
         HttpGetDrones # Sleep (calculateRetryDelay (random attempt) attempt)
           # fst (snd (loadDronesFromAPI get random (attempt + 1) st)),
         snd (snd (loadDronesFromAPI get random (attempt + 1) st)))"
      using load_failed_step [where get = get and attempt = attempt and random = random
          and st = st, OF Failed True] .
    show ?thesis using IH True by (simp add: step)
  next
    case False
    then have "attempt + 1 = MAX_RETRY_ATTEMPTS" using "1.prems"(2) by simp
    then show ?thesis
      unfolding load_failed_last [where get = get and attempt = attempt, OF Failed False]
      by simp
  qed
qed

text \<open>
  Claim C6. When all \<^verbatim>\<open>MAX_RETRY_ATTEMPTS\<close> requests fail, the load returns \<open>False\<close>
  after exactly that many requests, the state differs from the one before only in
  \<^verbatim>\<open>databaseConnected\<close> (now false) and \<^verbatim>\<open>retryCount\<close>, so the cached devices answer
  queries as before, and every later tick of the reconnection supervisor runs the load
  again, subscribing to the loaded serials when it succeeds.
\<close>

theorem load_exhausted:
  assumes "\<forall>n<MAX_RETRY_ATTEMPTS. get n = Failed"
  shows "\<not> fst (loadDronesFromAPI get random 0 st) \<and>
     snd (snd (loadDronesFromAPI get random 0 st)) =
       st\<lparr>databaseConnected := False, retryCount := MAX_RETRY_ATTEMPTS\<rparr> \<and>
     \<not> databaseConnected (snd (snd (loadDronesFromAPI get random 0 st))) \<and>
     dronesConfig (snd (snd (loadDronesFromAPI get random 0 st))) = dronesConfig st \<and>
     droneSNs (snd (snd (loadDronesFromAPI get random 0 st))) = droneSNs st \<and>
     getDroneFirstCamera (snd (snd (loadDronesFromAPI get random 0 st))) = getDroneFirstCamera st \<and>
     count_list (fst (snd (loadDronesFromAPI get random 0 st))) HttpGetDrones = MAX_RETRY_ATTEMPTS \<and>
     (\<forall>get' random'.
        reconnect_tick get' random' (snd (snd (loadDronesFromAPI get random 0 st))) =
          (case loadDronesFromAPI get' random' 0 (snd (snd (loadDronesFromAPI get random 0 st))) of
             (success, fx, st') \<Rightarrow>
               if success then (fx @ subscribeToAllDrones st', st') else (fx, st')))"
proof -
  have pos: "0 < MAX_RETRY_ATTEMPTS" by (simp add: MAX_RETRY_ATTEMPTS_def)
  note r = load_all_failed [where get = get and random = random and attempt = 0 and st = st,
      OF assms pos]
  have cam: "getDroneFirstCamera (st\<lparr>databaseConnected := False, retryCount := MAX_RETRY_ATTEMPTS\<rparr>)
      = getDroneFirstCamera st"
    by (rule ext) (simp add: getDroneFirstCamera_def)
  show ?thesis using r by (simp add: cam reconnect_tick_def)
qed

text \<open>Witness for C6: the registry is down for a whole load, and answers on the second
  request of the supervisor's next tick.\<close>

theorem load_exhausted_witness:
  "\<not> fst (loadDronesFromAPI registry_down no_jitter 0 idle_state) \<and>
   \<not> databaseConnected (snd (snd (loadDronesFromAPI registry_down no_jitter 0 idle_state))) \<and>
   dronesConfig (snd (snd (loadDronesFromAPI registry_down no_jitter 0 idle_state))) = [bc001] \<and>
   count_list (fst (snd (loadDronesFromAPI registry_down no_jitter 0 idle_state))) HttpGetDrones = 10 \<and>
   fst (reconnect_tick registry_recovers no_jitter
          (snd (snd (loadDronesFromAPI registry_down no_jitter 0 idle_state)))) =
     [HttpGetDrones, Sleep 2000, HttpGetDrones, Subscribe ''thing/product/BC002/osd'']"
proof -
  define L where "L = loadDronesFromAPI registry_down no_jitter 0 idle_state"
  have h: "\<forall>n<MAX_RETRY_ATTEMPTS. registry_down n = (Failed :: db_drone list response)"
    by (simp add: registry_down_def)
  note t = load_exhausted [where get = registry_down and random = no_jitter and st = idle_state,
      OF h, folded L_def]
  have a: "\<not> fst L" using t by (rule conjunct1)
  have b: "\<not> databaseConnected (snd (snd L))" using t by blast
  have c: "dronesConfig (snd (snd L)) = [bc001]"
  proof -
    have "dronesConfig (snd (snd L)) = dronesConfig idle_state" using t by blast
    then show ?thesis by (simp add: idle_state_def)
  qed
  have d: "count_list (fst (snd L)) HttpGetDrones = 10"
  proof -
    have "count_list (fst (snd L)) HttpGetDrones = MAX_RETRY_ATTEMPTS" using t by blast
    then show ?thesis by (simp add: MAX_RETRY_ATTEMPTS_def)
  qed
  have e: "reconnect_tick registry_recovers no_jitter (snd (snd L)) =
      (case loadDronesFromAPI registry_recovers no_jitter 0 (snd (snd L)) of
         (success, fx, st') \<Rightarrow> if success then (fx @ subscribeToAllDrones st', st') else (fx, st'))"
    using t by blast
  have f: "fst (reconnect_tick registry_recovers no_jitter (snd (snd L))) =
      [HttpGetDrones, Sleep 2000, HttpGetDrones, Subscribe ''thing/product/BC002/osd'']"
    unfolding e by (simp add: load_registry_recovers subscribeToAllDrones_def serial_text_def)
  show ?thesis using a b c d f unfolding L_def by blast
qed

section \<open>Properties of the credential cache\<close>

declare fetchDrone.simps [simp del]


lemma getAcessToken_tokenExpiry:
  "tokenExpiry (snd (snd (getAcessToken now login st))) = tokenExpiry st"
  by (simp add: getAcessToken_def Let_def split: response.splits)

lemma getAcessToken_frame:
  "dronesConfig (snd (snd (getAcessToken now login st))) = dronesConfig st"
  "droneSNs (snd (snd (getAcessToken now login st))) = droneSNs st"
  "startedStreams (snd (snd (getAcessToken now login st))) = startedStreams st"
  "droneLastMessageTime (snd (snd (getAcessToken now login st))) = droneLastMessageTime st"
  "databaseConnected (snd (snd (getAcessToken now login st))) = databaseConnected st"
  by (simp_all add: getAcessToken_def Let_def split: response.splits)

lemma getAcessToken_effects:
  "fst (snd (getAcessToken now login st)) = [] \<or> fst (snd (getAcessToken now login st)) = [HttpLogin]"
  by (simp add: getAcessToken_def Let_def split: response.splits)

lemma fetchDrone_tokenExpiry:
  "tokenExpiry (snd (snd (fetchDrone get droneSN n st))) = tokenExpiry st"
proof (induction get droneSN n st rule: fetchDrone.induct)
  case (1 get droneSN fetchAttempts st)
  show ?case
  proof (cases "fetchAttempts < maxFetchAttempts")
    case False
    then show ?thesis by (subst fetchDrone.simps) simp
  next
    case True
    show ?thesis
    proof (cases "get fetchAttempts")
      case (Ok dbDrone)
      then show ?thesis using True by (subst fetchDrone.simps) (simp add: Let_def)
    next
      case Failed
      show ?thesis
      proof (cases "fetchAttempts + 1 < maxFetchAttempts")
        case False
        then show ?thesis using True Failed by (subst fetchDrone.simps) (simp add: Let_def)
      next
        case next_ok: True
        note IH = "1.IH" [OF True Failed refl next_ok refl]
        show ?thesis using True Failed next_ok IH
          by (subst fetchDrone.simps) (simp add: Let_def case_prod_beta)
      qed
    qed
  qed
qed

lemma startStream_body_tokenExpiry:
  "tokenExpiry (snd (startStream_body now login get post droneSN st)) = tokenExpiry st"
proof -
  obtain token fx1 st1 where g: "getAcessToken now login st = (token, fx1, st1)"
    by (cases "getAcessToken now login st")
  have e1: "tokenExpiry st1 = tokenExpiry st"
    using getAcessToken_tokenExpiry [of now login st] by (simp add: g)
  have e2: "tokenExpiry (snd (snd (fetchDrone get droneSN 0 st1))) = tokenExpiry st"
    using fetchDrone_tokenExpiry [of get droneSN 0 st1] e1 by simp
  show ?thesis
    using e1 e2
    by (auto simp add: startStream_body_def g Let_def
        split: option.splits list.splits response.splits prod.splits)
qed



section \<open>Properties of the fallback fetch\<close>

lemma fetchDrone_all_failed:
  assumes "get 0 = Failed" "get 1 = Failed" "get 2 = Failed"
  shows "fetchDrone get droneSN 0 st =
     (None,
      [HttpGetDrone droneSN, Sleep 1000, HttpGetDrone droneSN, Sleep 2000, HttpGetDrone droneSN],
      st\<lparr>databaseConnected := False\<rparr>)"
proof -
  have 2: "fetchDrone get droneSN (Suc (Suc 0)) st =
      (None, [HttpGetDrone droneSN], st\<lparr>databaseConnected := False\<rparr>)"
    using assms by (subst fetchDrone.simps) (simp add: maxFetchAttempts_def numeral_2_eq_2)
  have 1: "fetchDrone get droneSN (Suc 0) st =
      (None, [HttpGetDrone droneSN, Sleep 2000, HttpGetDrone droneSN],
       st\<lparr>databaseConnected := False\<rparr>)"
    using assms 2 by (subst fetchDrone.simps) (simp add: maxFetchAttempts_def)
  show ?thesis
    using assms 1 by (subst fetchDrone.simps) (simp add: maxFetchAttempts_def)
qed

lemma fetchDrone_effects:
  "count_list (fst (snd (fetchDrone get droneSN n st))) (HttpGetDrone droneSN)
     \<le> maxFetchAttempts - n \<and>
   (\<forall>e \<in> set (fst (snd (fetchDrone get droneSN n st))). \<not> is_start_request e) \<and>
   startedStreams (snd (snd (fetchDrone get droneSN n st))) = startedStreams st"
proof (induction get droneSN n st rule: fetchDrone.induct)
  case (1 get droneSN fetchAttempts st)
  show ?case
  proof (cases "fetchAttempts < maxFetchAttempts")
    case False
    then show ?thesis by (subst (1 2 3) fetchDrone.simps) simp
  next
    case True
    show ?thesis
    proof (cases "get fetchAttempts")
      case (Ok dbDrone)
      then show ?thesis using True by (subst (1 2 3) fetchDrone.simps) (simp add: Let_def)
    next
      case Failed
      show ?thesis
      proof (cases "fetchAttempts + 1 < maxFetchAttempts")
        case False
        then show ?thesis using True Failed by (subst (1 2 3) fetchDrone.simps) (simp add: Let_def)
      next
        case next_ok: True
        note IH = "1.IH" [OF True Failed refl next_ok refl]
        show ?thesis using True Failed next_ok IH
          by (subst (1 2 3) fetchDrone.simps) (auto simp add: Let_def case_prod_beta)
      qed
    qed
  qed
qed

lemma startStream_body_uncached:
  assumes g: "getAcessToken now login st = (token, fx1, st1)"
    and t: "truthy token"
    and nc: "List.find (\<lambda>d. Some (sn d) = droneSN) (dronesConfig st) = None"
    and f: "fetchDrone get droneSN 0 st1 = (found, fx2, st2)"
  shows "startStream_body now login get post droneSN st =
     (case found of
        None \<Rightarrow> (fx1 @ fx2, st2)
      | Some drone \<Rightarrow>
          (case cameras drone of
             [] \<Rightarrow> (fx1 @ fx2, st2)
           | cameraId # others \<Rightarrow>
               if cameraId = [] then (fx1 @ fx2, st2)
               else
                 (case post of
                    Failed \<Rightarrow>
                      (fx1 @ fx2 @ [HttpStartStream token (stream_url drone)
                         (video_id droneSN cameraId)], st2)
                  | Ok (status, streamUrl) \<Rightarrow>
                      if status = 200 \<or> status = 201 then
                        ((fx1 @ fx2 @ [HttpStartStream token (stream_url drone)
                           (video_id droneSN cameraId)]) @ [HttpPatchStatus droneSN True streamUrl],
                         st2\<lparr>startedStreams := insert droneSN (startedStreams st2)\<rparr>)
                      else
                        (fx1 @ fx2 @ [HttpStartStream token (stream_url drone)
                           (video_id droneSN cameraId)], st2))))"
proof -
  have "dronesConfig st1 = dronesConfig st"
    using getAcessToken_frame(1) [of now login st] by (simp add: g)
  then have "List.find (\<lambda>d. Some (sn d) = droneSN) (dronesConfig st1) = None"
    using nc by simp
  then show ?thesis
    by (simp add: startStream_body_def g t f Let_def
        split: option.splits list.splits response.splits prod.splits)
qed

text \<open>
  Claim C8. A start attempt for a serial that is not cached sends at most 3 requests for
  that device. When all three fail, the attempt sleeps 1000 milliseconds after the first
  and 2000 after the second, marks the registry disconnected after the third and
  returns: no start request is sent and the device is not marked as started.
\<close>

theorem fallback_fetch_bounded:
  assumes "List.find (\<lambda>d. Some (sn d) = droneSN) (dronesConfig st) = None"
  shows "count_list (fst (startStream now login get post droneSN st)) (HttpGetDrone droneSN) \<le> 3 \<and>
     (get 0 = Failed \<and> get 1 = Failed \<and> get 2 = Failed \<longrightarrow>
        (\<forall>e \<in> set (fst (startStream now login get post droneSN st)). \<not> is_start_request e) \<and>
        startedStreams (snd (startStream now login get post droneSN st)) = startedStreams st \<and>
        (droneSN \<notin> startedStreams st \<and> truthy (fst (getAcessToken now login st)) \<longrightarrow>
           startStream now login get post droneSN st =
             (fst (snd (getAcessToken now login st)) @
                [HttpGetDrone droneSN, Sleep 1000, HttpGetDrone droneSN, Sleep 2000,
                 HttpGetDrone droneSN],
              (snd (snd (getAcessToken now login st)))\<lparr>databaseConnected := False\<rparr>)))"
proof (cases "droneSN \<in> startedStreams st")
  case True
  then show ?thesis by (simp add: startStream_def)
next
  case idle: False
  obtain token fx1 st1 where g: "getAcessToken now login st = (token, fx1, st1)"
    by (cases "getAcessToken now login st")
  have fx1: "fx1 = [] \<or> fx1 = [HttpLogin]"
    using getAcessToken_effects [of now login st] by (simp add: g)
  have st1: "startedStreams st1 = startedStreams st"
    using getAcessToken_frame(3) [of now login st] by (simp add: g)
  show ?thesis
  proof (cases "truthy token")
    case False
    then have "startStream now login get post droneSN st = (fx1, st1)"
      using idle by (simp add: startStream_def startStream_body_def g)
    then show ?thesis using fx1 st1 False g by auto
  next
    case True
    obtain found fx2 st2 where f: "fetchDrone get droneSN 0 st1 = (found, fx2, st2)"
      by (cases "fetchDrone get droneSN 0 st1")
    note body = startStream_body_uncached [OF g True assms f, of post]
    have fx2: "count_list fx2 (HttpGetDrone droneSN) \<le> 3"
      "\<forall>e \<in> set fx2. \<not> is_start_request e" "startedStreams st2 = startedStreams st"
      using fetchDrone_effects [of get droneSN 0 st1] st1
      by (simp_all add: f maxFetchAttempts_def)
    have count: "count_list (fst (startStream now login get post droneSN st)) (HttpGetDrone droneSN) \<le> 3"
      using idle fx1 fx2(1)
      by (auto simp add: startStream_def body split: option.splits list.splits response.splits)
    have exhausted: "get 0 = Failed \<and> get 1 = Failed \<and> get 2 = Failed \<Longrightarrow>
        startStream now login get post droneSN st =
          (fx1 @ [HttpGetDrone droneSN, Sleep 1000, HttpGetDrone droneSN, Sleep 2000,
                  HttpGetDrone droneSN], st1\<lparr>databaseConnected := False\<rparr>)"
    proof -
      assume a: "get 0 = Failed \<and> get 1 = Failed \<and> get 2 = Failed"
      have "fetchDrone get droneSN 0 st1 =
          (None, [HttpGetDrone droneSN, Sleep 1000, HttpGetDrone droneSN, Sleep 2000,
                  HttpGetDrone droneSN], st1\<lparr>databaseConnected := False\<rparr>)"
        using a by (intro fetchDrone_all_failed) simp_all
      then show ?thesis using idle body f by (simp add: startStream_def)
    qed
    show ?thesis
    proof (intro conjI impI)
      show "count_list (fst (startStream now login get post droneSN st)) (HttpGetDrone droneSN) \<le> 3"
        by (rule count)
    next
      assume a: "get 0 = Failed \<and> get 1 = Failed \<and> get 2 = Failed"
      show "\<forall>e \<in> set (fst (startStream now login get post droneSN st)). \<not> is_start_request e"
        using exhausted [OF a] fx1 by auto
      show "startedStreams (snd (startStream now login get post droneSN st)) = startedStreams st"
        using exhausted [OF a] st1 by simp
      show "startStream now login get post droneSN st =
             (fst (snd (getAcessToken now login st)) @
                [HttpGetDrone droneSN, Sleep 1000, HttpGetDrone droneSN, Sleep 2000,
                 HttpGetDrone droneSN],
              (snd (snd (getAcessToken now login st)))\<lparr>databaseConnected := False\<rparr>)"
        using exhausted [OF a] by (simp add: g)
    qed
  qed
qed

text \<open>Witness for C8: a start attempt for the unknown serial \<open>BC404\<close> while the registry
  is down.\<close>

theorem fallback_fetch_bounded_witness:
  "startStream 0 (Ok (JStr ''token-1'')) registry_down Failed unknown_serial idle_state =
     ([HttpLogin, HttpGetDrone unknown_serial, Sleep 1000, HttpGetDrone unknown_serial,
       Sleep 2000, HttpGetDrone unknown_serial],
      idle_state\<lparr>cachedToken := JStr ''token-1'', databaseConnected := False\<rparr>) \<and>
   startedStreams (snd (startStream 0 (Ok (JStr ''token-1'')) registry_down Failed
      unknown_serial idle_state)) = {}"
proof -
  have nc: "List.find (\<lambda>d. Some (sn d) = unknown_serial) (dronesConfig idle_state) = None"
    by (simp add: idle_state_def initial_state_def bc001_def unknown_serial_def)
  have down: "registry_down 0 = (Failed :: db_drone response) \<and> registry_down 1 = (Failed :: db_drone response)
      \<and> registry_down 2 = (Failed :: db_drone response)"
    by (simp add: registry_down_def)
  have tok: "getAcessToken 0 (Ok (JStr ''token-1'')) idle_state =
      (JStr ''token-1'', [HttpLogin], idle_state\<lparr>cachedToken := JStr ''token-1''\<rparr>)"
    by (simp add: getAcessToken_def idle_state_def initial_state_def)
  have idle: "unknown_serial \<notin> startedStreams idle_state"
    by (simp add: idle_state_def initial_state_def)
  note t = fallback_fetch_bounded [where droneSN = unknown_serial and st = idle_state
      and now = 0 and login = "Ok (JStr ''token-1'')" and get = registry_down and post = Failed,
      OF nc]
  from t down idle tok show ?thesis
    by (simp add: idle_state_def initial_state_def)
qed

section \<open>Properties of the message handler\<close>

lemma split_osd: "split_on CHR ''/'' osd_topic = [''thing'', ''product'', ''BC001'', ''osd'']"
  by (simp add: osd_topic_def)

lemma osd_topic_serial: "topic_serial osd_topic = Some ''BC001''"
  by (simp add: topic_serial_def split_osd nth_opt_def)

lemma getDroneFirstCamera_config:
  "dronesConfig st' = dronesConfig st \<Longrightarrow> getDroneFirstCamera st' = getDroneFirstCamera st"
  by (rule ext) (simp add: getDroneFirstCamera_def)

lemma camera_online_config:
  "dronesConfig st' = dronesConfig st \<Longrightarrow> camera_online st' = camera_online st"
  by (intro ext) (simp add: camera_online_def getDroneFirstCamera_def)

lemma on_message_unparsed: "on_message now topic None st = ([], st)"
  by (simp add: on_message_def)

lemma on_message_no_data:
  assumes "data_section_missing droneData"
  shows "on_message now topic (Some droneData) st =
     ([EmitDroneDataUpdate droneData (topic_serial topic)], recorded now topic st)"
  using assms
  by (auto simp add: on_message_def data_section_missing_def recorded_def Let_def
      split: sum.splits)

lemma on_message_present:
  assumes "indicates_presence st topic droneData"
  shows "on_message now topic (Some droneData) st =
     (if topic_serial topic \<notin> startedStreams st
      then ([EmitDroneDataUpdate droneData (topic_serial topic), CallStartStream (topic_serial topic)],
            recorded now topic st)
      else ([EmitDroneDataUpdate droneData (topic_serial topic)], recorded now topic st))"
proof -
  have c: "camera_online (recorded now topic st) = camera_online st"
    by (rule camera_online_config) (simp add: recorded_def)
  show ?thesis
    using assms c
    by (auto simp add: on_message_def indicates_presence_def recorded_def Let_def
        split: sum.splits)
qed

lemma on_message_absent:
  assumes "indicates_absence st topic droneData"
  shows "on_message now topic (Some droneData) st =
     (if topic_serial topic \<in> startedStreams st
      then ([EmitDroneDataUpdate droneData (topic_serial topic),
             HttpPatchStatus (topic_serial topic) False []],
            (recorded now topic st)\<lparr>startedStreams := startedStreams st - {topic_serial topic}\<rparr>)
      else ([EmitDroneDataUpdate droneData (topic_serial topic)], recorded now topic st))"
proof -
  have c: "camera_online (recorded now topic st) = camera_online st"
    by (rule camera_online_config) (simp add: recorded_def)
  show ?thesis
    using assms c
    by (auto simp add: on_message_def indicates_absence_def recorded_def Let_def
        split: sum.splits)
qed

lemma message_kinds:
  "data_section_missing droneData \<or> indicates_presence st topic droneData
     \<or> indicates_absence st topic droneData"
  by (auto simp add: data_section_missing_def indicates_presence_def indicates_absence_def
      split: sum.splits)

lemma on_message_dronesConfig:
  "dronesConfig (snd (on_message now topic parsed st)) = dronesConfig st"
  by (simp add: on_message_def Let_def split: option.splits sum.splits)

text \<open>
  Claim C2, as amended. A message that decodes but whose \<^verbatim>\<open>data\<close> section is missing or
  not an object only has its arrival time recorded and its payload forwarded to the
  socket clients: the set of started streams is unchanged and no registry or gateway
  request is made, so a streaming device stays streaming.
\<close>

theorem no_data_section_ignored:
  assumes "data_section_missing droneData"
  shows "on_message now topic (Some droneData) st =
       ([EmitDroneDataUpdate droneData (topic_serial topic)],
        st\<lparr>droneLastMessageTime :=
             AList.update (topic_serial topic) now (droneLastMessageTime st)\<rparr>) \<and>
     startedStreams (snd (on_message now topic (Some droneData) st)) = startedStreams st"
  using on_message_no_data [OF assms, of now topic st] by (simp add: recorded_def)

text \<open>Witness for C2: a payload without \<^verbatim>\<open>data\<close> for the streaming device \<open>BC001\<close>.\<close>

theorem no_data_section_ignored_witness:
  "data_section_missing no_data_message \<and>
   on_message 2000 osd_topic (Some no_data_message) streaming_state =
     ([EmitDroneDataUpdate no_data_message (Some ''BC001'')],
      streaming_state\<lparr>droneLastMessageTime := [(Some ''BC001'', 2000)]\<rparr>) \<and>
   startedStreams (snd (on_message 2000 osd_topic (Some no_data_message) streaming_state)) =
     {Some ''BC001''}"
proof -
  have h: "data_section_missing no_data_message"
    by (simp add: data_section_missing_def no_data_message_def)
  from no_data_section_ignored [OF h, of 2000 osd_topic streaming_state] h
  show ?thesis
    by (simp add: osd_topic_serial streaming_state_def idle_state_def initial_state_def)
qed

text \<open>
  Counterexample to C2 as stated (a missing \<^verbatim>\<open>data\<close> section acts as camera absence):
  for the streaming device \<open>BC001\<close> a payload without \<^verbatim>\<open>data\<close> leaves the device
  started and reports nothing, while a payload with an empty \<^verbatim>\<open>data\<close> object removes it
  and reports \<^verbatim>\<open>streamIsOn = false\<close>.
\<close>

theorem no_data_is_not_absence_example:
  "Some ''BC001'' \<in> startedStreams streaming_state \<and>
   js_data_field no_data_message = Inr JUndefined \<and>
   on_message 2000 osd_topic (Some no_data_message) streaming_state =
     ([EmitDroneDataUpdate no_data_message (Some ''BC001'')],
      streaming_state\<lparr>droneLastMessageTime := [(Some ''BC001'', 2000)]\<rparr>) \<and>
   Some ''BC001'' \<in> startedStreams (snd (on_message 2000 osd_topic (Some no_data_message) streaming_state)) \<and>
   on_message 2000 osd_topic (Some absent_message) streaming_state =
     ([EmitDroneDataUpdate absent_message (Some ''BC001''),
       HttpPatchStatus (Some ''BC001'') False []],
      streaming_state\<lparr>droneLastMessageTime := [(Some ''BC001'', 2000)], startedStreams := {}\<rparr>)"
proof -
  have a: "data_section_missing no_data_message"
    by (simp add: data_section_missing_def no_data_message_def)
  have b: "indicates_absence streaming_state osd_topic absent_message"
    by (simp add: indicates_absence_def absent_message_def camera_online_def osd_topic_serial
        getDroneFirstCamera_def streaming_state_def idle_state_def initial_state_def bc001_def
        inherited_def object_prototype_names_def)
  show ?thesis
    by (simp add: on_message_no_data [OF a] on_message_absent [OF b] osd_topic_serial recorded_def)
      (simp add: streaming_state_def idle_state_def initial_state_def no_data_message_def)
qed

lemma absent_idle_run:
  assumes "droneSN \<notin> startedStreams st"
    and "dronesConfig st = dronesConfig st0"
    and "\<forall>(now, topic, droneData) \<in> set msgs.
           topic_serial topic = droneSN \<and> indicates_absence st0 topic droneData"
  shows "fst (on_messages (map decoded msgs) st) = map emitted msgs \<and>
     startedStreams (snd (on_messages (map decoded msgs) st)) = startedStreams st \<and>
     dronesConfig (snd (on_messages (map decoded msgs) st)) = dronesConfig st"
  using assms
proof (induction msgs arbitrary: st)
  case Nil
  show ?case by simp
next
  case (Cons m msgs)
  obtain now topic droneData where m: "m = (now, topic, droneData)" by (cases m)
  have sn': "topic_serial topic = droneSN" and abs0: "indicates_absence st0 topic droneData"
    using Cons.prems(3) by (simp_all add: m)
  have abs: "indicates_absence st topic droneData"
    using abs0 camera_online_config [OF Cons.prems(2)]
    by (simp add: indicates_absence_def split: sum.splits)
  have one: "on_message now topic (Some droneData) st =
      ([EmitDroneDataUpdate droneData (topic_serial topic)], recorded now topic st)"
    using on_message_absent [OF abs, of now] Cons.prems(1) sn' by simp
  have idle: "droneSN \<notin> startedStreams (recorded now topic st)"
    using Cons.prems(1) by (simp add: recorded_def)
  have cfg: "dronesConfig (recorded now topic st) = dronesConfig st0"
    using Cons.prems(2) by (simp add: recorded_def)
  have rest: "\<forall>(now, topic, droneData) \<in> set msgs.
      topic_serial topic = droneSN \<and> indicates_absence st0 topic droneData"
    using Cons.prems(3) by simp
  note IH = Cons.IH [OF idle cfg rest]
  show ?case
    using IH by (simp add: m decoded_def emitted_def one case_prod_beta recorded_def)
qed

text \<open>
  Claim C5. For a device that is not started, any run of messages that indicate the
  absence of its first camera causes one socket emission per message and nothing else:
  no call of \<^verbatim>\<open>startStream\<close>, no start request, no status update, and the device is
  still not started afterwards.
\<close>

theorem absence_while_idle_is_noop:
  assumes "droneSN \<notin> startedStreams st"
    and "\<forall>(now, topic, droneData) \<in> set msgs.
           topic_serial topic = droneSN \<and> indicates_absence st topic droneData"
  shows "fst (on_messages (map decoded msgs) st) = map emitted msgs \<and>
     (\<forall>e \<in> set (fst (on_messages (map decoded msgs) st)).
        e \<noteq> CallStartStream droneSN \<and> \<not> is_start_request e \<and>
        (\<forall>s on url. e \<noteq> HttpPatchStatus s on url)) \<and>
     droneSN \<notin> startedStreams (snd (on_messages (map decoded msgs) st)) \<and>
     startedStreams (snd (on_messages (map decoded msgs) st)) = startedStreams st"
proof -
  note r = absent_idle_run [OF assms(1) refl assms(2)]
  have "\<forall>e \<in> set (map emitted msgs).
      e \<noteq> CallStartStream droneSN \<and> \<not> is_start_request e \<and>
      (\<forall>s on url. e \<noteq> HttpPatchStatus s on url)"
    by (auto simp add: emitted_def)
  then show ?thesis using r assms(1) by simp
qed

text \<open>Witness for C5: two absence messages for the idle device \<open>BC001\<close>.\<close>

theorem absence_while_idle_is_noop_witness:
  "fst (on_messages
          [(2000, osd_topic, Some absent_message), (3000, osd_topic, Some absent_message)]
          idle_state) =
     [EmitDroneDataUpdate absent_message (Some ''BC001''),
      EmitDroneDataUpdate absent_message (Some ''BC001'')] \<and>
   startedStreams (snd (on_messages
          [(2000, osd_topic, Some absent_message), (3000, osd_topic, Some absent_message)]
          idle_state)) = {}"
proof -
  have idle: "Some ''BC001'' \<notin> startedStreams idle_state"
    by (simp add: idle_state_def initial_state_def)
  have abs: "indicates_absence idle_state osd_topic absent_message"
    by (simp add: indicates_absence_def absent_message_def camera_online_def osd_topic_serial
        getDroneFirstCamera_def idle_state_def initial_state_def bc001_def
        inherited_def object_prototype_names_def)
  have all: "\<forall>(now, topic, droneData) \<in> set [(2000, osd_topic, absent_message),
       (3000, osd_topic, absent_message)].
      topic_serial topic = Some ''BC001'' \<and> indicates_absence idle_state topic droneData"
    using abs by (simp add: osd_topic_serial)
  from absence_while_idle_is_noop [OF idle all]
  show ?thesis
    by (simp add: decoded_def emitted_def osd_topic_serial idle_state_def initial_state_def)
qed

section \<open>Properties of stream starts\<close>

lemma on_message_start_calls:
  "start_calls (fst (on_message now topic parsed st)) =
     (if (\<exists>droneData. parsed = Some droneData \<and> indicates_presence st topic droneData) \<and>
         topic_serial topic \<notin> startedStreams st
      then [topic_serial topic] else [])"
proof (cases parsed)
  case None
  then show ?thesis by (simp add: on_message_unparsed)
next
  case (Some droneData)
  consider (missing) "data_section_missing droneData"
    | (present) "indicates_presence st topic droneData"
    | (absent) "indicates_absence st topic droneData"
    using message_kinds by blast
  then show ?thesis
  proof cases
    case missing
    then have "\<not> indicates_presence st topic droneData"
      by (auto simp add: data_section_missing_def indicates_presence_def split: sum.splits)
    then show ?thesis using Some missing by (simp add: on_message_no_data)
  next
    case present
    then show ?thesis using Some by (simp add: on_message_present)
  next
    case absent
    then have "\<not> indicates_presence st topic droneData"
      by (auto simp add: indicates_absence_def indicates_presence_def split: sum.splits)
    then show ?thesis using Some absent by (simp add: on_message_absent)
  qed
qed

lemma on_message_startedStreams:
  "startedStreams (snd (on_message now topic parsed st)) \<subseteq> startedStreams st"
  by (auto simp add: on_message_def Let_def split: option.splits sum.splits if_splits)

lemma presence_needs_camera:
  assumes "indicates_presence st topic droneData"
  shows "getDroneFirstCamera st (topic_serial topic) \<noteq> None"
  using assms
  by (auto simp add: indicates_presence_def camera_online_def split: sum.splits option.splits)

lemma start_calls_append: "start_calls (xs @ ys) = start_calls xs @ start_calls ys"
  by (induction xs rule: start_calls.induct) simp_all

lemma no_camera_run:
  assumes "getDroneFirstCamera st droneSN = None"
  shows "droneSN \<notin> set (start_calls (fst (on_messages msgs st)))"
  using assms
proof (induction msgs arbitrary: st)
  case Nil
  show ?case by simp
next
  case (Cons m msgs)
  obtain now topic parsed where m: "m = (now, topic, parsed)" by (cases m)
  let ?st' = "snd (on_message now topic parsed st)"
  have first: "droneSN \<notin> set (start_calls (fst (on_message now topic parsed st)))"
    using Cons.prems presence_needs_camera [of st topic]
    by (auto simp add: on_message_start_calls)
  have "getDroneFirstCamera ?st' = getDroneFirstCamera st"
    by (rule getDroneFirstCamera_config) (rule on_message_dronesConfig)
  then have "getDroneFirstCamera ?st' droneSN = None" using Cons.prems by simp
  then have rest: "droneSN \<notin> set (start_calls (fst (on_messages msgs ?st')))"
    by (rule Cons.IH)
  show ?case
    using first rest by (simp add: m case_prod_beta start_calls_append)
qed

lemma startStream_no_camera:
  assumes "List.find (\<lambda>d. Some (sn d) = droneSN) (dronesConfig st) = Some drone"
    and "cameras drone = [] \<or> hd (cameras drone) = []"
  shows "startStream_body now login get post droneSN st =
     (fst (snd (getAcessToken now login st)), snd (snd (getAcessToken now login st)))"
proof -
  obtain token fx1 st1 where g: "getAcessToken now login st = (token, fx1, st1)"
    by (cases "getAcessToken now login st")
  have "dronesConfig st1 = dronesConfig st"
    using getAcessToken_frame(1) [of now login st] by (simp add: g)
  then have "List.find (\<lambda>d. Some (sn d) = droneSN) (dronesConfig st1) = Some drone"
    using assms(1) by simp
  then show ?thesis
    using assms(2) by (auto simp add: startStream_body_def g Let_def split: list.splits)
qed

text \<open>
  Claim C10. For a device whose cached configuration has an empty camera list,
  \<^verbatim>\<open>getDroneFirstCamera\<close> returns \<^verbatim>\<open>null\<close>; no run of telemetry messages makes the handler
  call \<^verbatim>\<open>startStream\<close> for it, since none of its messages counts as presence and every
  one with a usable \<^verbatim>\<open>data\<close> section counts as absence; and a direct call of
  \<^verbatim>\<open>startStream\<close> sends no start request and leaves the device not started. A registry
  record without a camera list is cached with an empty one.
\<close>

theorem no_camera_never_starts:
  assumes "List.find (\<lambda>d. Some (sn d) = droneSN) (dronesConfig st) = Some drone"
    and "cameras drone = []"
  shows "getDroneFirstCamera st droneSN = None \<and>
     droneSN \<notin> set (start_calls (fst (on_messages msgs st))) \<and>
     (\<forall>e \<in> set (fst (startStream now login get post droneSN st)). \<not> is_start_request e) \<and>
     startedStreams (snd (startStream now login get post droneSN st)) = startedStreams st \<and>
     (topic_serial topic = droneSN \<longrightarrow>
        \<not> indicates_presence st topic droneData \<and>
        (\<not> data_section_missing droneData \<longrightarrow> indicates_absence st topic droneData)) \<and>
     (db_cameras record = None \<longrightarrow> cameras (transform record) = [])"
proof -
  have cam: "getDroneFirstCamera st droneSN = None"
    using assms by (simp add: getDroneFirstCamera_def)
  have body: "startStream_body now login get post droneSN st =
      (fst (snd (getAcessToken now login st)), snd (snd (getAcessToken now login st)))"
    using startStream_no_camera [OF assms(1) disjI1, OF assms(2)] .
  have fx: "\<forall>e \<in> set (fst (startStream now login get post droneSN st)). \<not> is_start_request e"
    using getAcessToken_effects [of now login st] by (auto simp add: startStream_def body)
  have started: "startedStreams (snd (startStream now login get post droneSN st)) = startedStreams st"
    by (simp add: startStream_def body getAcessToken_frame)
  have path: "topic_serial topic = droneSN \<longrightarrow>
      \<not> indicates_presence st topic droneData \<and>
      (\<not> data_section_missing droneData \<longrightarrow> indicates_absence st topic droneData)"
    using cam presence_needs_camera [of st topic droneData] message_kinds [of droneData st topic]
    by auto
  show ?thesis
    using cam no_camera_run [OF cam, of msgs] fx started path by (simp add: transform_def)
qed

text \<open>Witness for C10: the scenario's device with its camera list emptied.\<close>

theorem no_camera_never_starts_witness:
  "getDroneFirstCamera bare_state (Some ''BC001'') = None \<and>
   start_calls (fst (on_messages [(1000, osd_topic, Some present_message)] bare_state)) = [] \<and>
   fst (startStream 1000 (Ok (JStr ''token-1'')) registry_down (Ok (200, ''rtsp://x'')) (Some ''BC001'')
          bare_state) = [HttpLogin] \<and>
   startedStreams (snd (startStream 1000 (Ok (JStr ''token-1'')) registry_down (Ok (200, ''rtsp://x''))
          (Some ''BC001'') bare_state)) = {}"
proof -
  have f: "List.find (\<lambda>d. Some (sn d) = Some ''BC001'') (dronesConfig bare_state) = Some bare_drone"
    by (simp add: bare_state_def bare_drone_def bc001_def)
  have c: "cameras bare_drone = []" by (simp add: bare_drone_def)
  note t = no_camera_never_starts [OF f c, where msgs = "[(1000, osd_topic, Some present_message)]"
      and now = 1000 and login = "Ok (JStr ''token-1'')" and get = registry_down
      and post = "Ok (200, ''rtsp://x'')"]
  have calls: "start_calls (fst (on_messages [(1000, osd_topic, Some present_message)] bare_state)) = []"
    by (simp add: case_prod_beta on_message_start_calls indicates_presence_def camera_online_def
        conjunct1 [OF t] osd_topic_serial split: sum.splits)
  have fx: "fst (startStream 1000 (Ok (JStr ''token-1'')) registry_down (Ok (200, ''rtsp://x''))
      (Some ''BC001'') bare_state) = [HttpLogin]"
  proof -
    have idle: "Some ''BC001'' \<notin> startedStreams bare_state"
      by (simp add: bare_state_def idle_state_def initial_state_def)
    have tok: "getAcessToken 1000 (Ok (JStr ''token-1'')) bare_state =
        (JStr ''token-1'', [HttpLogin], bare_state\<lparr>cachedToken := JStr ''token-1''\<rparr>)"
      by (simp add: getAcessToken_def bare_state_def idle_state_def initial_state_def)
    show ?thesis
      by (simp add: startStream_def idle startStream_no_camera [OF f disjI1, OF c] tok)
  qed
  show ?thesis using t calls fx by (simp add: bare_state_def idle_state_def initial_state_def)
qed

section \<open>Properties of the inactivity watchdog\<close>

lemma expired_Cons:
  "expired now ((k, t) # entries) =
     (if now - t > INACTIVITY_TIMEOUT_MS then insert k (expired now entries)
      else expired now entries)"
  by (simp add: expired_def)

lemma delete_as_filter: "AList.delete k al = filter (\<lambda>p. fst p \<noteq> k) al"
  by (induction al) auto

lemma sweep_entries_spec:
  "startedStreams (snd (sweep_entries now entries st)) = startedStreams st - expired now entries \<and>
   droneLastMessageTime (snd (sweep_entries now entries st)) =
     filter (\<lambda>p. fst p \<notin> expired now entries) (droneLastMessageTime st) \<and>
   count_list (fst (sweep_entries now entries st)) (stop_report k) =
     (if k \<in> startedStreams st \<and> k \<in> expired now entries then 1 else 0)"
proof (induction entries arbitrary: st)
  case Nil
  show ?case by (simp add: expired_def)
next
  case (Cons entry entries)
  obtain k0 t0 where entry: "entry = (k0, t0)" by (cases entry)
  show ?case
  proof (cases "now - t0 > INACTIVITY_TIMEOUT_MS")
    case False
    then show ?thesis using Cons.IH [of st] by (simp add: entry expired_Cons)
  next
    case True
    let ?st2 = "st\<lparr>startedStreams := startedStreams st - {k0},
                   droneLastMessageTime := AList.delete k0 (droneLastMessageTime st)\<rparr>"
    let ?fx1 = "if k0 \<in> startedStreams st then [stop_report k0] else []"
    have unfold: "sweep_entries now (entry # entries) st =
        (?fx1 @ fst (sweep_entries now entries ?st2), snd (sweep_entries now entries ?st2))"
    proof (cases "k0 \<in> startedStreams st")
      case True
      then show ?thesis
        using \<open>now - t0 > INACTIVITY_TIMEOUT_MS\<close>
        by (simp add: entry Let_def case_prod_beta stop_report_def)
    next
      case False
      then have "st\<lparr>droneLastMessageTime := AList.delete k0 (droneLastMessageTime st)\<rparr> = ?st2"
        by simp
      then show ?thesis
        using False \<open>now - t0 > INACTIVITY_TIMEOUT_MS\<close>
        by (simp add: entry Let_def case_prod_beta)
    qed
    note IH = Cons.IH [of ?st2]
    have X: "expired now (entry # entries) = insert k0 (expired now entries)"
      using True by (simp add: entry expired_Cons)
    have a: "startedStreams (snd (sweep_entries now (entry # entries) st)) =
        startedStreams st - expired now (entry # entries)"
      using IH by (auto simp add: unfold X)
    have b: "droneLastMessageTime (snd (sweep_entries now (entry # entries) st)) =
        filter (\<lambda>p. fst p \<notin> expired now (entry # entries)) (droneLastMessageTime st)"
    proof -
      have "filter (\<lambda>p. fst p \<notin> expired now entries)
              (filter (\<lambda>p. fst p \<noteq> k0) (droneLastMessageTime st)) =
            filter (\<lambda>p. fst p \<notin> insert k0 (expired now entries)) (droneLastMessageTime st)"
        by (simp add: conj_commute)
      then show ?thesis using IH by (simp add: unfold X delete_as_filter)
    qed
    have c: "count_list (fst (sweep_entries now (entry # entries) st)) (stop_report k) =
        (if k \<in> startedStreams st \<and> k \<in> expired now (entry # entries) then 1 else 0)"
      using IH by (auto simp add: unfold X stop_report_def)
    show ?thesis using a b c by blast
  qed
qed

lemma watchdog_tick_spec:
  "startedStreams (snd (watchdog_tick now st)) =
     startedStreams st - expired now (droneLastMessageTime st) \<and>
   droneLastMessageTime (snd (watchdog_tick now st)) =
     filter (\<lambda>p. fst p \<notin> expired now (droneLastMessageTime st)) (droneLastMessageTime st) \<and>
   count_list (fst (watchdog_tick now st)) (stop_report k) =
     (if k \<in> startedStreams st \<and> k \<in> expired now (droneLastMessageTime st) then 1 else 0)"
  unfolding watchdog_tick_def by (rule sweep_entries_spec)

lemma expired_iff:
  assumes "distinct (map fst entries)" and "(k, t) \<in> set entries"
  shows "k \<in> expired now entries \<longleftrightarrow> now - t > INACTIVITY_TIMEOUT_MS"
proof
  assume "k \<in> expired now entries"
  then obtain t' where t': "(k, t') \<in> set entries" "now - t' > INACTIVITY_TIMEOUT_MS"
    by (auto simp add: expired_def)
  have "t' = t" using assms t'(1) by (meson eq_key_imp_eq_value)
  then show "now - t > INACTIVITY_TIMEOUT_MS" using t'(2) by simp
next
  assume "now - t > INACTIVITY_TIMEOUT_MS"
  then show "k \<in> expired now entries"
    using assms(2) by (force simp add: expired_def)
qed

lemma watchdog_tick_distinct:
  "distinct (map fst (droneLastMessageTime st)) \<Longrightarrow>
   distinct (map fst (droneLastMessageTime (snd (watchdog_tick now st))))"
  by (simp add: watchdog_tick_spec [of now st None] distinct_map_filter)

lemma watchdog_tick_not_due:
  assumes "distinct (map fst (droneLastMessageTime st))"
    and "(k, t) \<in> set (droneLastMessageTime st)"
    and "now - t \<le> INACTIVITY_TIMEOUT_MS"
  shows "count_list (fst (watchdog_tick now st)) (stop_report k) = 0 \<and>
     (k, t) \<in> set (droneLastMessageTime (snd (watchdog_tick now st))) \<and>
     (k \<in> startedStreams (snd (watchdog_tick now st)) \<longleftrightarrow> k \<in> startedStreams st)"
proof -
  have "k \<notin> expired now (droneLastMessageTime st)"
    using expired_iff [OF assms(1,2), of now] assms(3) by simp
  then show ?thesis
    using assms(2) by (simp add: watchdog_tick_spec [of now st k])
qed

lemma watchdog_tick_due:
  assumes "distinct (map fst (droneLastMessageTime st))"
    and "(k, t) \<in> set (droneLastMessageTime st)"
    and "now - t > INACTIVITY_TIMEOUT_MS"
    and "k \<in> startedStreams st"
  shows "count_list (fst (watchdog_tick now st)) (stop_report k) = 1 \<and>
     last_seen (snd (watchdog_tick now st)) k = None \<and>
     k \<notin> startedStreams (snd (watchdog_tick now st))"
proof -
  have x: "k \<in> expired now (droneLastMessageTime st)"
    using expired_iff [OF assms(1,2), of now] assms(3) by simp
  have "k \<notin> fst ` set (filter (\<lambda>p. fst p \<notin> expired now (droneLastMessageTime st))
      (droneLastMessageTime st))"
    using x by auto
  then have "map_of (filter (\<lambda>p. fst p \<notin> expired now (droneLastMessageTime st))
      (droneLastMessageTime st)) k = None"
    by (simp add: map_of_eq_None_iff)
  then show ?thesis
    using x assms(4) by (simp add: watchdog_tick_spec [of now st k] last_seen_def)
qed

lemma watchdog_ticks_idle:
  assumes "k \<notin> startedStreams st"
  shows "count_list (fst (watchdog_ticks instants st)) (stop_report k) = 0 \<and>
     k \<notin> startedStreams (snd (watchdog_ticks instants st))"
  using assms
proof (induction instants arbitrary: st)
  case Nil
  then show ?case by simp
next
  case (Cons now instants)
  have one: "count_list (fst (watchdog_tick now st)) (stop_report k) = 0"
    "k \<notin> startedStreams (snd (watchdog_tick now st))"
    using Cons.prems by (simp_all add: watchdog_tick_spec [of now st k])
  show ?case
    using one Cons.IH [OF one(2)] by (simp add: case_prod_beta)
qed

lemma watchdog_ticks_not_due:
  assumes "distinct (map fst (droneLastMessageTime st))"
    and "(k, t) \<in> set (droneLastMessageTime st)"
    and "\<forall>now \<in> set instants. now - t \<le> INACTIVITY_TIMEOUT_MS"
  shows "count_list (fst (watchdog_ticks instants st)) (stop_report k) = 0 \<and>
     (k, t) \<in> set (droneLastMessageTime (snd (watchdog_ticks instants st))) \<and>
     (k \<in> startedStreams (snd (watchdog_ticks instants st)) \<longleftrightarrow> k \<in> startedStreams st) \<and>
     distinct (map fst (droneLastMessageTime (snd (watchdog_ticks instants st))))"
  using assms
proof (induction instants arbitrary: st)
  case Nil
  then show ?case by simp
next
  case (Cons now instants)
  have nd: "now - t \<le> INACTIVITY_TIMEOUT_MS" using Cons.prems(3) by simp
  note one = watchdog_tick_not_due [OF Cons.prems(1,2) nd]
  have d: "distinct (map fst (droneLastMessageTime (snd (watchdog_tick now st))))"
    using Cons.prems(1) by (rule watchdog_tick_distinct)
  have rest: "\<forall>now \<in> set instants. now - t \<le> INACTIVITY_TIMEOUT_MS" using Cons.prems(3) by simp
  have e: "(k, t) \<in> set (droneLastMessageTime (snd (watchdog_tick now st)))"
    using one by blast
  note IH = Cons.IH [OF d e rest]
  show ?case
    using one IH by (simp add: case_prod_beta)
qed

lemma watchdog_ticks_append:
  "watchdog_ticks (xs @ ys) st =
     (fst (watchdog_ticks xs st) @ fst (watchdog_ticks ys (snd (watchdog_ticks xs st))),
      snd (watchdog_ticks ys (snd (watchdog_ticks xs st))))"
  by (induction xs arbitrary: st) (simp_all add: case_prod_beta)

lemma watchdog_ticks_single:
  "watchdog_ticks [now] st = watchdog_tick now st"
  by (simp add: case_prod_beta)

lemma tick_times_Suc:
  "tick_times t0 (Suc n) = tick_times t0 n @ [t0 + int n * CHECK_INTERVAL_MS]"
  by (simp add: tick_times_def)

lemma tick_times_split:
  assumes "k \<le> n"
  shows "tick_times t0 n =
     tick_times t0 k @ map (\<lambda>j. t0 + int j * CHECK_INTERVAL_MS) [k..<n]"
proof -
  have "[0..<n] = [0..<k] @ [k..<n]"
    using assms by (metis le_add_diff_inverse upt_add_eq_append zero_le)
  then show ?thesis by (simp add: tick_times_def)
qed

lemma on_message_last_seen:
  "last_seen (snd (on_message now topic (Some droneData) st)) (topic_serial topic) = Some now"
  by (simp add: on_message_def Let_def last_seen_def update_conv' split: sum.splits)

lemma fetchDrone_lastSeen:
  "droneLastMessageTime (snd (snd (fetchDrone get droneSN n st))) = droneLastMessageTime st"
proof (induction get droneSN n st rule: fetchDrone.induct)
  case (1 get droneSN fetchAttempts st)
  show ?case
  proof (cases "fetchAttempts < maxFetchAttempts")
    case False
    then show ?thesis by (subst fetchDrone.simps) simp
  next
    case True
    show ?thesis
    proof (cases "get fetchAttempts")
      case (Ok dbDrone)
      then show ?thesis using True by (subst fetchDrone.simps) (simp add: Let_def)
    next
      case Failed
      show ?thesis
      proof (cases "fetchAttempts + 1 < maxFetchAttempts")
        case False
        then show ?thesis using True Failed by (subst fetchDrone.simps) (simp add: Let_def)
      next
        case next_ok: True
        note IH = "1.IH" [OF True Failed refl next_ok refl]
        show ?thesis using True Failed next_ok IH
          by (subst fetchDrone.simps) (simp add: Let_def case_prod_beta)
      qed
    qed
  qed
qed

lemma startStream_body_lastSeen:
  "droneLastMessageTime (snd (startStream_body now login get post droneSN st)) =
     droneLastMessageTime st"
proof -
  obtain token fx1 st1 where g: "getAcessToken now login st = (token, fx1, st1)"
    by (cases "getAcessToken now login st")
  have e1: "droneLastMessageTime st1 = droneLastMessageTime st"
    using getAcessToken_frame(4) [of now login st] by (simp add: g)
  have e2: "droneLastMessageTime (snd (snd (fetchDrone get droneSN 0 st1))) = droneLastMessageTime st"
    using fetchDrone_lastSeen [of get droneSN 0 st1] e1 by simp
  show ?thesis
    using e1 e2
    by (auto simp add: startStream_body_def g Let_def
        split: option.splits list.splits response.splits prod.splits)
qed

lemma on_message_distinct:
  "distinct (map fst (droneLastMessageTime st)) \<Longrightarrow>
   distinct (map fst (droneLastMessageTime (snd (on_message now topic parsed st))))"
  by (simp add: on_message_def Let_def distinct_update split: option.splits sum.splits)

text \<open>
  The sweep on a device whose entry is present. Let a device be started, with its last
  message recorded at \<open>t\<close>, and let the watchdog timer tick every \<^verbatim>\<open>CHECK_INTERVAL_MS\<close>
  from \<open>t0\<close> on, no message arriving meanwhile. Then some tick \<open>k\<close> falls after \<open>t\<close> plus
  the timeout and at most one period later; the ticks before it report nothing for the
  device, tick \<open>k\<close> sends exactly one stop report, removes the device's entry and its
  started mark, and no later sweep reports the device again. The next decoded message
  for the device records its arrival time anew.
\<close>

lemma watchdog_reports_once:
  assumes inv: "distinct (map fst (droneLastMessageTime st))"
    and started: "droneSN \<in> startedStreams st"
    and seen: "last_seen st droneSN = Some t"
    and first: "t0 \<le> t + INACTIVITY_TIMEOUT_MS"
    and last: "t + INACTIVITY_TIMEOUT_MS < t0 + int m * CHECK_INTERVAL_MS"
  shows "\<exists>k\<le>m.
      t + INACTIVITY_TIMEOUT_MS < t0 + int k * CHECK_INTERVAL_MS \<and>
      t0 + int k * CHECK_INTERVAL_MS \<le> t + INACTIVITY_TIMEOUT_MS + CHECK_INTERVAL_MS \<and>
      count_list (fst (watchdog_ticks (tick_times t0 k) st)) (stop_report droneSN) = 0 \<and>
      count_list (fst (watchdog_ticks (tick_times t0 (Suc k)) st)) (stop_report droneSN) = 1 \<and>
      count_list (fst (watchdog_ticks (tick_times t0 (Suc m)) st)) (stop_report droneSN) = 1 \<and>
      last_seen (snd (watchdog_ticks (tick_times t0 (Suc k)) st)) droneSN = None \<and>
      droneSN \<notin> startedStreams (snd (watchdog_ticks (tick_times t0 (Suc k)) st)) \<and>
      (\<forall>later.
         count_list (fst (watchdog_ticks later (snd (watchdog_ticks (tick_times t0 (Suc k)) st))))
           (stop_report droneSN) = 0) \<and>
      (\<forall>now topic droneData st'.
         topic_serial topic = droneSN \<longrightarrow>
           last_seen (snd (on_message now topic (Some droneData) st')) droneSN = Some now)"
proof -
  let ?T = INACTIVITY_TIMEOUT_MS
  let ?P = CHECK_INTERVAL_MS
  let ?due = "\<lambda>k. t + ?T < t0 + int k * ?P"
  define k where "k = (LEAST k. ?due k)"
  have Ppos: "0 < ?P" by (simp add: CHECK_INTERVAL_MS_def)
  have due_k: "?due k" unfolding k_def using LeastI [of ?due m] last by simp
  have k_le: "k \<le> m" unfolding k_def using Least_le [of ?due m] last by simp
  have before_k: "\<not> ?due j" if "j < k" for j
    using that not_less_Least [of j ?due] unfolding k_def by simp
  have k_pos: "0 < k"
  proof (rule ccontr)
    assume "\<not> 0 < k"
    then have "k = 0" by simp
    then show False using due_k first by simp
  qed
  have within: "t0 + int k * ?P \<le> t + ?T + ?P"
  proof -
    obtain k' where k': "k = Suc k'" using k_pos by (cases k) simp_all
    have "\<not> ?due k'" by (rule before_k) (simp add: k')
    then have "t0 + int k' * ?P \<le> t + ?T" by simp
    moreover have "int (Suc k') * ?P = int k' * ?P + ?P" by (simp add: algebra_simps)
    ultimately show ?thesis unfolding k' by linarith
  qed
  have mem: "(droneSN, t) \<in> set (droneLastMessageTime st)"
    using seen unfolding last_seen_def by (rule map_of_SomeD)
  have early: "\<forall>now \<in> set (tick_times t0 k). now - t \<le> ?T"
  proof
    fix now assume "now \<in> set (tick_times t0 k)"
    then obtain j where j: "j < k" "now = t0 + int j * ?P"
      by (auto simp add: tick_times_def)
    have "\<not> ?due j" using j(1) by (rule before_k)
    then show "now - t \<le> ?T" using j(2) by simp
  qed
  let ?stk = "snd (watchdog_ticks (tick_times t0 k) st)"
  let ?now = "t0 + int k * ?P"
  note A = watchdog_ticks_not_due [OF inv mem early]
  have A1: "count_list (fst (watchdog_ticks (tick_times t0 k) st)) (stop_report droneSN) = 0"
    and A2: "(droneSN, t) \<in> set (droneLastMessageTime ?stk)"
    and A3: "droneSN \<in> startedStreams ?stk"
    and A4: "distinct (map fst (droneLastMessageTime ?stk))"
    using A started by simp_all
  have due_now: "?now - t > ?T" using due_k by simp
  note B = watchdog_tick_due [OF A4 A2 due_now A3]
  have split1: "watchdog_ticks (tick_times t0 (Suc k)) st =
      (fst (watchdog_ticks (tick_times t0 k) st) @ fst (watchdog_tick ?now ?stk),
       snd (watchdog_tick ?now ?stk))"
    by (simp only: tick_times_Suc watchdog_ticks_append watchdog_ticks_single)
  let ?stk1 = "snd (watchdog_ticks (tick_times t0 (Suc k)) st)"
  have C1: "count_list (fst (watchdog_ticks (tick_times t0 (Suc k)) st)) (stop_report droneSN) = 1"
    using A1 B by (simp add: split1)
  have C2: "last_seen ?stk1 droneSN = None" using B by (simp add: split1)
  have C3: "droneSN \<notin> startedStreams ?stk1" using B by (simp add: split1)
  have idle: "count_list (fst (watchdog_ticks later ?stk1)) (stop_report droneSN) = 0" for later
    using watchdog_ticks_idle [OF C3, of later] by simp
  have split2: "tick_times t0 (Suc m) =
      tick_times t0 (Suc k) @ map (\<lambda>j. t0 + int j * ?P) [Suc k..<Suc m]"
    using k_le by (intro tick_times_split) simp
  have D: "count_list (fst (watchdog_ticks (tick_times t0 (Suc m)) st)) (stop_report droneSN) = 1"
  proof -
    let ?rest = "map (\<lambda>j. t0 + int j * ?P) [Suc k..<Suc m]"
    have "fst (watchdog_ticks (tick_times t0 (Suc m)) st) =
        fst (watchdog_ticks (tick_times t0 (Suc k)) st) @ fst (watchdog_ticks ?rest ?stk1)"
      by (subst split2) (simp only: watchdog_ticks_append fst_conv)
    then show ?thesis
      using C1 idle [of ?rest] by simp
  qed
  have E: "\<forall>now topic droneData st'.
      topic_serial topic = droneSN \<longrightarrow>
        last_seen (snd (on_message now topic (Some droneData) st')) droneSN = Some now"
    using on_message_last_seen by blast
  have all_idle: "\<forall>later. count_list (fst (watchdog_ticks later ?stk1)) (stop_report droneSN) = 0"
    using idle by (rule allI)
  show ?thesis
  proof (intro exI [of _ k] conjI)
    show "k \<le> m" by (rule k_le)
    show "?due k" by (rule due_k)
    show "t0 + int k * ?P \<le> t + ?T + ?P" by (rule within)
    show "count_list (fst (watchdog_ticks (tick_times t0 k) st)) (stop_report droneSN) = 0"
      by (rule A1)
    show "count_list (fst (watchdog_ticks (tick_times t0 (Suc k)) st)) (stop_report droneSN) = 1"
      by (rule C1)
    show "count_list (fst (watchdog_ticks (tick_times t0 (Suc m)) st)) (stop_report droneSN) = 1"
      by (rule D)
    show "last_seen ?stk1 droneSN = None" by (rule C2)
    show "droneSN \<notin> startedStreams ?stk1" by (rule C3)
    show "\<forall>later. count_list (fst (watchdog_ticks later ?stk1)) (stop_report droneSN) = 0"
      by (rule all_idle)
    show "\<forall>now topic droneData st'.
      topic_serial topic = droneSN \<longrightarrow>
        last_seen (snd (on_message now topic (Some droneData) st')) droneSN = Some now"
      by (rule E)
  qed
qed

text \<open>For example, \<open>BC001\<close> is streaming and was last heard at 1000; a timer ticking at
  5000, 15000, 25000 and 35000 reports it at the fourth tick, 9 seconds after the timeout
  has elapsed at 26000.\<close>

lemma watchdog_reports_once_example:
  "count_list (fst (watchdog_ticks (tick_times 5000 3) streaming_state))
     (stop_report (Some ''BC001'')) = 0 \<and>
   count_list (fst (watchdog_ticks (tick_times 5000 4) streaming_state))
     (stop_report (Some ''BC001'')) = 1 \<and>
   last_seen (snd (watchdog_ticks (tick_times 5000 4) streaming_state)) (Some ''BC001'') = None \<and>
   Some ''BC001'' \<notin> startedStreams (snd (watchdog_ticks (tick_times 5000 4) streaming_state))"
proof -
  have inv: "distinct (map fst (droneLastMessageTime streaming_state))"
    by (simp add: streaming_state_def)
  have started: "Some ''BC001'' \<in> startedStreams streaming_state"
    by (simp add: streaming_state_def)
  have seen: "last_seen streaming_state (Some ''BC001'') = Some 1000"
    by (simp add: last_seen_def streaming_state_def)
  have first: "5000 \<le> 1000 + INACTIVITY_TIMEOUT_MS"
    by (simp add: INACTIVITY_TIMEOUT_MS_def)
  have last: "1000 + INACTIVITY_TIMEOUT_MS < 5000 + int 3 * CHECK_INTERVAL_MS"
    by (simp add: INACTIVITY_TIMEOUT_MS_def CHECK_INTERVAL_MS_def)
  from watchdog_reports_once [OF inv started seen first last]
  obtain k where k: "k \<le> 3"
    "1000 + INACTIVITY_TIMEOUT_MS < 5000 + int k * CHECK_INTERVAL_MS"
    "count_list (fst (watchdog_ticks (tick_times 5000 k) streaming_state))
       (stop_report (Some ''BC001'')) = 0"
    "count_list (fst (watchdog_ticks (tick_times 5000 (Suc k)) streaming_state))
       (stop_report (Some ''BC001'')) = 1"
    "last_seen (snd (watchdog_ticks (tick_times 5000 (Suc k)) streaming_state)) (Some ''BC001'') = None"
    "Some ''BC001'' \<notin> startedStreams (snd (watchdog_ticks (tick_times 5000 (Suc k)) streaming_state))"
    by blast
  have "21000 < int k * 10000"
    using k(2) by (simp add: INACTIVITY_TIMEOUT_MS_def CHECK_INTERVAL_MS_def)
  then have "2 < k" by linarith
  then have k3: "k = 3" using k(1) by simp
  have s4: "Suc 3 = 4" by simp
  show ?thesis
    using k(3-6) unfolding k3 s4 by blast
qed

section \<open>Properties of the event loop\<close>

lemmas example_defs =
  idle_system_def idle_state_def initial_state_def bc001_def osd_topic_def present_message_def
  absent_message_def login_accepts_def gateway_accepts_def telemetry_burst_def

lemmas handler_defs =
  on_message_def topic_serial_def nth_opt_def camera_online_def getDroneFirstCamera_def
  inherited_def object_prototype_names_def Let_def

lemmas start_defs =
  startStream_call_def start_with_token_def start_with_drone_def fetch_next_def
  stream_url_def video_id_def serial_text_def

lemma run_append: "run (es @ es') sys = run es' (run es sys)"
  by (induction es arbitrary: sys) simp_all

subsection \<open>The runs of the examples\<close>

text \<open>Two presence messages in quick succession: each launches a call, and each call,
  finding no cached token, sends its own login request and waits for the answer.\<close>

lemma run_burst:
  "run telemetry_burst idle_system =
     \<lparr>server = idle_state\<lparr>droneLastMessageTime := [(Some ''BC001'', 1200)]\<rparr>,
      inflight = [AwaitLogin (Some ''BC001''), AwaitLogin (Some ''BC001'')],
      sent = [EmitDroneDataUpdate present_message (Some ''BC001''),
              CallStartStream (Some ''BC001''), HttpLogin,
              EmitDroneDataUpdate present_message (Some ''BC001''),
              CallStartStream (Some ''BC001''), HttpLogin]\<rparr>"
  by (simp add: example_defs handler_defs start_defs)



text \<open>With every request of the two calls answered, both calls run to their end.\<close>

lemma run_burst_resolved:
  "run burst_resolved idle_system =
     \<lparr>server = idle_state\<lparr>droneLastMessageTime := [(Some ''BC001'', 1200)],
                  cachedToken := JStr ''token-1'', startedStreams := {Some ''BC001''}\<rparr>,
      inflight = [],
      sent = [EmitDroneDataUpdate present_message (Some ''BC001''),
              CallStartStream (Some ''BC001''), HttpLogin,
              EmitDroneDataUpdate present_message (Some ''BC001''),
              CallStartStream (Some ''BC001''), HttpLogin,
              HttpStartStream (JStr ''token-1'') ''userName=user&password=secret&port=8554''
                ''BC001/camA/thermal-0'',
              HttpStartStream (JStr ''token-1'') ''userName=user&password=secret&port=8554''
                ''BC001/camA/thermal-0'',
              HttpPatchStatus (Some ''BC001'') True ''rtsp://gateway/BC001'',
              HttpPatchStatus (Some ''BC001'') True ''rtsp://gateway/BC001'']\<rparr>"
  unfolding burst_resolved_def run_append run_burst
  by (simp add: example_defs start_defs)

text \<open>A start that is still waiting for its login answer when the watchdog removes the
  device's entry, and succeeds afterwards.\<close>

lemma run_late_start:
  "run late_start idle_system =
     \<lparr>server = idle_state\<lparr>droneLastMessageTime := [], cachedToken := JStr ''token-1'',
                  startedStreams := {Some ''BC001''}\<rparr>,
      inflight = [],
      sent = [EmitDroneDataUpdate present_message (Some ''BC001''),
              CallStartStream (Some ''BC001''), HttpLogin,
              HttpStartStream (JStr ''token-1'') ''userName=user&password=secret&port=8554''
                ''BC001/camA/thermal-0'',
              HttpPatchStatus (Some ''BC001'') True ''rtsp://gateway/BC001'']\<rparr>"
  by (simp add: late_start_def example_defs handler_defs start_defs watchdog_tick_def
      INACTIVITY_TIMEOUT_MS_def)

text \<open>
  The specification's scenario for \<open>BC001\<close>: presence at 1000 leads to a login, one start
  request and one report \<^verbatim>\<open>streamIsOn=true\<close>; absence at 2000 leads to one report
  \<^verbatim>\<open>streamIsOn=false\<close>; a second absence at 3000 leads to nothing but the socket emission.
\<close>

lemma run_scenario:
  "run scenario idle_system =
     \<lparr>server = idle_state\<lparr>droneLastMessageTime := [(Some ''BC001'', 3000)],
                  cachedToken := JStr ''token-1''\<rparr>,
      inflight = [],
      sent = [EmitDroneDataUpdate present_message (Some ''BC001''),
              CallStartStream (Some ''BC001''), HttpLogin,
              HttpStartStream (JStr ''token-1'') ''userName=user&password=secret&port=8554''
                ''BC001/camA/thermal-0'',
              HttpPatchStatus (Some ''BC001'') True ''rtsp://gateway/BC001'',
              EmitDroneDataUpdate absent_message (Some ''BC001''),
              stop_report (Some ''BC001''),
              EmitDroneDataUpdate absent_message (Some ''BC001'')]\<rparr>"
  by (simp add: scenario_def example_defs handler_defs start_defs stop_report_def)

subsection \<open>What a call and a resumption leave alone\<close>

lemma start_with_drone_frame:
  "fst (snd (start_with_drone token s drone st)) = st \<and>
   HttpLogin \<notin> set (fst (start_with_drone token s drone st)) \<and>
   (\<forall>t. snd (snd (start_with_drone token s drone st)) = Some t \<longrightarrow> t = AwaitPost s)"
  by (simp add: start_with_drone_def split: list.splits)

lemma fetch_next_frame:
  "fst (snd (fetch_next token s n st)) = st \<and>
   HttpLogin \<notin> set (fst (fetch_next token s n st)) \<and>
   (\<forall>t. snd (snd (fetch_next token s n st)) = Some t \<longrightarrow> t = AwaitFetch s token n)"
  by (simp add: fetch_next_def)

lemma start_with_token_frame:
  "fst (snd (start_with_token token s st)) = st \<and>
   HttpLogin \<notin> set (fst (start_with_token token s st)) \<and>
   (\<forall>t. snd (snd (start_with_token token s st)) = Some t \<longrightarrow> \<not> awaits_login t \<and> task_serial t = s)"
  by (auto simp add: start_with_token_def start_with_drone_def fetch_next_def
      split: option.splits list.splits)

lemma startStream_call_state: "fst (snd (startStream_call now s st)) = st"
  using start_with_token_frame [of "cachedToken st" s st]
  by (simp add: startStream_call_def)

lemma startStream_call_serial:
  "snd (snd (startStream_call now s st)) = Some t \<Longrightarrow> task_serial t = s"
  using start_with_token_frame [of "cachedToken st" s st]
  by (auto simp add: startStream_call_def split: if_splits)


lemma call_all_state: "fst (snd (call_all now ss st)) = st"
proof (induction ss arbitrary: st)
  case Nil
  show ?case by simp
next
  case (Cons s ss)
  show ?case
    using startStream_call_state [of now s st] Cons.IH [of st]
    by (simp add: case_prod_beta)
qed


lemma resume_frame:
  assumes "resume t a st = Some (fx, st', next)"
  shows "tokenExpiry st' = tokenExpiry st \<and> droneLastMessageTime st' = droneLastMessageTime st"
proof (cases t)
  case (AwaitLogin s)
  then show ?thesis
    using assms start_with_token_frame
    by (cases a) (auto simp add: Let_def split: response.splits if_splits
        dest!: arg_cong [where f = "\<lambda>p. fst (snd p)"])
next
  case (AwaitFetch s token n)
  then show ?thesis
    using assms start_with_drone_frame
    by (cases a) (auto simp add: Let_def split: response.splits if_splits
        dest!: arg_cong [where f = "\<lambda>p. fst (snd p)"])
next
  case (AwaitSleep s token n)
  then show ?thesis
    using assms fetch_next_frame
    by (cases a) (auto dest!: arg_cong [where f = "\<lambda>p. fst (snd p)"])
next
  case (AwaitPost s)
  then show ?thesis
    using assms by (cases a) (auto split: response.splits if_splits)
next
  case (AwaitPatch s)
  then show ?thesis
    using assms by (cases a) auto
qed


subsection \<open>Steps and runs\<close>

lemma step_telemetry:
  "step (Telemetry now topic parsed) sys =
     \<lparr>server = snd (on_message now topic parsed (server sys)),
      inflight = inflight sys @
        snd (snd (call_all now (start_calls (fst (on_message now topic parsed (server sys))))
                    (snd (on_message now topic parsed (server sys))))),
      sent = sent sys @ fst (on_message now topic parsed (server sys)) @
        fst (call_all now (start_calls (fst (on_message now topic parsed (server sys))))
               (snd (on_message now topic parsed (server sys))))\<rparr>"
  using call_all_state [of now "start_calls (fst (on_message now topic parsed (server sys)))"
      "snd (on_message now topic parsed (server sys))"]
  by (simp add: case_prod_beta)

lemma step_resolves:
  "step (Resolves i a) sys =
     (if i < length (inflight sys) then
        (case resume (inflight sys ! i) a (server sys) of
           None \<Rightarrow> sys
         | Some r \<Rightarrow>
             \<lparr>server = fst (snd r),
              inflight =
                (case snd (snd r) of
                   None \<Rightarrow> take i (inflight sys) @ drop (Suc i) (inflight sys)
                 | Some t \<Rightarrow> (inflight sys)[i := t]),
              sent = sent sys @ fst r\<rparr>)
      else sys)"
  by (simp add: case_prod_beta split: option.splits)

lemma step_watchdog:
  "step (WatchdogTick now) sys =
     \<lparr>server = snd (watchdog_tick now (server sys)), inflight = inflight sys,
      sent = sent sys @ fst (watchdog_tick now (server sys))\<rparr>"
  by (simp add: case_prod_beta)



lemma step_distinct:
  assumes "distinct (map fst (droneLastMessageTime (server sys)))"
  shows "distinct (map fst (droneLastMessageTime (server (step e sys))))"
proof (cases e)
  case (Telemetry now topic parsed)
  show ?thesis
    unfolding Telemetry step_telemetry using on_message_distinct [OF assms] by simp
next
  case (Resolves i a)
  show ?thesis
  proof (cases "i < length (inflight sys)")
    case False
    then show ?thesis unfolding Resolves step_resolves using assms by simp
  next
    case True
    show ?thesis
    proof (cases "resume (inflight sys ! i) a (server sys)")
      case None
      then show ?thesis unfolding Resolves step_resolves using True assms by simp
    next
      case (Some r)
      obtain fx st' nxt where r: "r = (fx, st', nxt)" by (cases r)
      have "droneLastMessageTime st' = droneLastMessageTime (server sys)"
        using resume_frame [of "inflight sys ! i" a "server sys" fx st' nxt] Some r by simp
      then show ?thesis unfolding Resolves step_resolves using True Some r assms by simp
    qed
  qed
next
  case (WatchdogTick now)
  show ?thesis
    unfolding WatchdogTick step_watchdog using watchdog_tick_distinct [OF assms] by simp
qed

lemma run_distinct:
  "distinct (map fst (droneLastMessageTime (server sys))) \<Longrightarrow>
   distinct (map fst (droneLastMessageTime (server (run es sys))))"
  by (induction es arbitrary: sys) (simp_all add: step_distinct del: step.simps)






subsection \<open>The cached token\<close>




subsection \<open>Calls in flight\<close>

text \<open>A presence message for a device that is not marked as started always adds a call
  for that device to the calls in flight, however many are in flight already: the handler
  and \<^verbatim>\<open>startStream\<close> test \<^verbatim>\<open>startedStreams\<close> only, and a call enters that set after its
  last request has been answered.\<close>

lemma presence_launches:
  assumes "indicates_presence (server sys) topic droneData"
    and "topic_serial topic \<notin> startedStreams (server sys)"
  shows "\<exists>t. task_serial t = topic_serial topic \<and>
     inflight (step (Telemetry now topic (Some droneData)) sys) = inflight sys @ [t]"
proof -
  let ?s = "topic_serial topic"
  let ?st = "recorded now topic (server sys)"
  have om: "on_message now topic (Some droneData) (server sys) =
      ([EmitDroneDataUpdate droneData ?s, CallStartStream ?s], ?st)"
    using assms(2) by (simp add: on_message_present [OF assms(1)])
  obtain cam where cam: "getDroneFirstCamera (server sys) ?s = Some cam"
    using presence_needs_camera [OF assms(1)] by auto
  then obtain drone where drone: "List.find (\<lambda>d. Some (sn d) = ?s) (dronesConfig (server sys)) = Some drone"
    and cams: "cameras drone \<noteq> []" "hd (cameras drone) \<noteq> []"
    by (auto simp add: getDroneFirstCamera_def split: option.splits list.splits if_splits)
  have cfg: "dronesConfig ?st = dronesConfig (server sys)" "startedStreams ?st = startedStreams (server sys)"
    by (simp_all add: recorded_def)
  have "\<exists>t. snd (snd (startStream_call now ?s ?st)) = Some t"
    using assms(2) drone cams cfg
    by (cases "cameras drone")
      (auto simp add: startStream_call_def start_with_token_def start_with_drone_def)
  then obtain t where t: "snd (snd (startStream_call now ?s ?st)) = Some t" by blast
  have ser: "task_serial t = ?s" using t by (rule startStream_call_serial)
  have "inflight (step (Telemetry now topic (Some droneData)) sys) = inflight sys @ [t]"
    unfolding step_telemetry by (simp add: om case_prod_beta t)
  then show ?thesis using ser by blast
qed

lemma presence_adds_call:
  assumes "indicates_presence (server sys) topic droneData"
    and "topic_serial topic \<notin> startedStreams (server sys)"
  shows "calls_in_flight (step (Telemetry now topic (Some droneData)) sys) (topic_serial topic) =
     Suc (calls_in_flight sys (topic_serial topic))"
  using presence_launches [OF assms, of now] by (auto simp add: calls_in_flight_def)

text \<open>
  Claim C1 does not hold of the code. The handler starts a stream for a device only if
  the device is not in \<^verbatim>\<open>startedStreams\<close>, and \<^verbatim>\<open>startStream\<close> returns at once for a device
  in it; but a call adds its device to the set only after its login, start request
  and status report have all been answered. For two presence messages for \<open>BC001\<close> at 1000
  and 1001, the first call still waiting for its login answer, two calls are in flight
  for \<open>BC001\<close>; both run to their end, and the gateway receives two start requests and
  the registry two reports \<^verbatim>\<open>streamIsOn=true\<close> for the same device.
\<close>

theorem two_starts_in_flight_example:
  "inflight (run telemetry_burst idle_system) =
     [AwaitLogin (Some ''BC001''), AwaitLogin (Some ''BC001'')] \<and>
   calls_in_flight (run telemetry_burst idle_system) (Some ''BC001'') = 2 \<and>
   sent (run burst_resolved idle_system) =
     [EmitDroneDataUpdate present_message (Some ''BC001''),
      CallStartStream (Some ''BC001''), HttpLogin,
      EmitDroneDataUpdate present_message (Some ''BC001''),
      CallStartStream (Some ''BC001''), HttpLogin,
      HttpStartStream (JStr ''token-1'') ''userName=user&password=secret&port=8554''
        ''BC001/camA/thermal-0'',
      HttpStartStream (JStr ''token-1'') ''userName=user&password=secret&port=8554''
        ''BC001/camA/thermal-0'',
      HttpPatchStatus (Some ''BC001'') True ''rtsp://gateway/BC001'',
      HttpPatchStatus (Some ''BC001'') True ''rtsp://gateway/BC001'']"
  by (simp add: run_burst run_burst_resolved calls_in_flight_def)

subsection \<open>A start that ends after the sweep\<close>

text \<open>A device without an entry in \<^verbatim>\<open>droneLastMessageTime\<close> is invisible to the watchdog: no
  sequence of sweeps reports it, and its started mark stays as it is.\<close>

lemma no_entry_never_reported:
  assumes "k \<notin> fst ` set (droneLastMessageTime st)"
  shows "count_list (fst (watchdog_ticks instants st)) (stop_report k) = 0 \<and>
     (k \<in> startedStreams (snd (watchdog_ticks instants st)) \<longleftrightarrow> k \<in> startedStreams st)"
  using assms
proof (induction instants arbitrary: st)
  case Nil
  show ?case by simp
next
  case (Cons now instants)
  have x: "k \<notin> expired now (droneLastMessageTime st)"
    using Cons.prems by (auto simp add: expired_def)
  note spec = watchdog_tick_spec [of now st k]
  have one: "count_list (fst (watchdog_tick now st)) (stop_report k) = 0"
    "k \<in> startedStreams (snd (watchdog_tick now st)) \<longleftrightarrow> k \<in> startedStreams st"
    using spec x by simp_all
  have "k \<notin> fst ` set (droneLastMessageTime (snd (watchdog_tick now st)))"
    using spec Cons.prems by auto
  then have IH: "count_list (fst (watchdog_ticks instants (snd (watchdog_tick now st)))) (stop_report k) = 0 \<and>
     (k \<in> startedStreams (snd (watchdog_ticks instants (snd (watchdog_tick now st))))
        \<longleftrightarrow> k \<in> startedStreams (snd (watchdog_tick now st)))"
    by (rule Cons.IH)
  show ?case using one IH by (simp add: case_prod_beta)
qed

text \<open>
  Claim C7 does not hold of the code. The watchdog iterates over the entries of
  \<^verbatim>\<open>droneLastMessageTime\<close>, and deletes the entry of a silent device whether or not the
  device is started. \<open>BC001\<close> sends one presence message at 1000 and falls silent; its start
  is still waiting for the login answer when the sweep at 27000 finds the entry expired,
  finds the device not started, reports nothing and deletes the entry. The start then
  succeeds and marks the device as started. From then on the device is streaming, has
  been silent for longer than the timeout, and has no entry: no stop report has been
  sent, and no later sweep, at whatever instants, ever sends one or removes the mark.
\<close>

theorem late_start_never_reported:
  "Some ''BC001'' \<in> startedStreams (server (run late_start idle_system)) \<and>
   last_seen (server (run late_start idle_system)) (Some ''BC001'') = None \<and>
   count_list (sent (run late_start idle_system)) (stop_report (Some ''BC001'')) = 0 \<and>
   (\<forall>instants.
      count_list (fst (watchdog_ticks instants (server (run late_start idle_system))))
        (stop_report (Some ''BC001'')) = 0 \<and>
      Some ''BC001'' \<in> startedStreams (snd (watchdog_ticks instants (server (run late_start idle_system)))))"
proof -
  have none: "Some ''BC001'' \<notin> fst ` set (droneLastMessageTime (server (run late_start idle_system)))"
    by (simp add: run_late_start)
  have started: "Some ''BC001'' \<in> startedStreams (server (run late_start idle_system))"
    by (simp add: run_late_start)
  have seen: "last_seen (server (run late_start idle_system)) (Some ''BC001'') = None"
    by (simp add: run_late_start last_seen_def)
  have sent: "count_list (sent (run late_start idle_system)) (stop_report (Some ''BC001'')) = 0"
    by (simp add: run_late_start stop_report_def)
  show ?thesis
    using started seen sent no_entry_never_reported [OF none] by simp
qed

text \<open>For example, the sweeps at 37000 and 47000 leave \<open>BC001\<close> marked as started and report
  nothing.\<close>

theorem late_start_never_reported_witness:
  "count_list (fst (watchdog_ticks [37000, 47000] (server (run late_start idle_system))))
     (stop_report (Some ''BC001'')) = 0 \<and>
   Some ''BC001'' \<in> startedStreams (snd (watchdog_ticks [37000, 47000] (server (run late_start idle_system))))"
  using late_start_never_reported by blast

subsection \<open>A call run to its end\<close>

declare complete.simps [simp del]

lemma complete_unfold:
  "complete login get post t st =
     (case resume t (answer_for login get post t) st of
        None \<Rightarrow> ([], st)
      | Some r \<Rightarrow> run_to_end login get post r)"
  by (subst complete.simps) (simp add: run_to_end_def split: option.splits prod.splits)

lemma complete_patch:
  "complete login get post (AwaitPatch s) st =
     ([], st\<lparr>startedStreams := insert s (startedStreams st)\<rparr>)"
  by (simp add: complete_unfold run_to_end_def)

lemma complete_post:
  "complete login get post (AwaitPost s) st =
     (case post of
        Failed \<Rightarrow> ([], st)
      | Ok (status, streamUrl) \<Rightarrow>
          if status = 200 \<or> status = 201
          then ([HttpPatchStatus s True streamUrl],
                st\<lparr>startedStreams := insert s (startedStreams st)\<rparr>)
          else ([], st))"
  by (simp add: complete_unfold run_to_end_def complete_patch split: response.splits)

lemma run_to_end_drone:
  "run_to_end login get post (start_with_drone token s drone st) =
     (case cameras drone of
        [] \<Rightarrow> ([], st)
      | cameraId # others \<Rightarrow>
          if cameraId = [] then ([], st)
          else
            (let fx3 = [HttpStartStream token (stream_url drone) (video_id s cameraId)]
             in case post of
                  Failed \<Rightarrow> (fx3, st)
                | Ok (status, streamUrl) \<Rightarrow>
                    if status = 200 \<or> status = 201 then
                      (fx3 @ [HttpPatchStatus s True streamUrl],
                       st\<lparr>startedStreams := insert s (startedStreams st)\<rparr>)
                    else (fx3, st)))"
  by (simp add: run_to_end_def start_with_drone_def complete_post
      split: list.splits response.splits)

lemma run_to_end_fetch:
  "run_to_end login get post (fetch_next token s n st) =
     (case fetchDrone get s n st of
        (None, fx2, st2) \<Rightarrow> (fx2, st2)
      | (Some drone, fx2, st2) \<Rightarrow>
          (let (fx, st') = run_to_end login get post (start_with_drone token s drone st2)
           in (fx2 @ fx, st')))"
proof (induction get s n st rule: fetchDrone.induct)
  case (1 get droneSN fetchAttempts st)
  show ?case
  proof (cases "fetchAttempts < maxFetchAttempts")
    case False
    then show ?thesis
      by (subst fetchDrone.simps) (simp add: fetch_next_def run_to_end_def)
  next
    case less: True
    show ?thesis
    proof (cases "get fetchAttempts")
      case (Ok dbDrone)
      show ?thesis
        using less Ok
        by (subst fetchDrone.simps)
          (simp add: fetch_next_def run_to_end_def [of _ _ _ "(_, _, Some (AwaitFetch _ _ _))"]
            complete_unfold Let_def case_prod_beta)
    next
      case Failed
      show ?thesis
      proof (cases "fetchAttempts + 1 < maxFetchAttempts")
        case False
        then show ?thesis
          using less Failed
          by (subst fetchDrone.simps)
            (simp add: fetch_next_def run_to_end_def complete_unfold Let_def)
      next
        case True
        have IH: "run_to_end login get post (fetch_next token droneSN (Suc fetchAttempts) st) =
            (case fetchDrone get droneSN (Suc fetchAttempts) st of
               (None, fx2, st2) \<Rightarrow> (fx2, st2)
             | (Some drone, fx2, st2) \<Rightarrow>
                 (let (fx, st') = run_to_end login get post
                        (start_with_drone token droneSN drone st2)
                  in (fx2 @ fx, st')))"
          using "1.IH" [OF less Failed refl True refl] by simp
        have c: "complete login get post (AwaitFetch droneSN token fetchAttempts) st =
            (let (fx', st'') = run_to_end login get post
                 (fetch_next token droneSN (fetchAttempts + 1) st)
             in (Sleep (1000 * int (fetchAttempts + 1)) # fx', st''))"
          using True Failed
          by (simp add: complete_unfold [of _ _ _ "AwaitFetch _ _ _"]
              complete_unfold [of _ _ _ "AwaitSleep _ _ _"]
              run_to_end_def [of _ _ _ "(_, _, Some (AwaitSleep _ _ _))"] Let_def)
        show ?thesis
          using less Failed True
          by (subst fetchDrone.simps)
            (simp add: fetch_next_def [of _ _ fetchAttempts]
              run_to_end_def [of _ _ _ "(_, _, Some (AwaitFetch _ _ _))"] c IH Let_def
              case_prod_beta split: option.splits)
      qed
    qed
  qed
qed

lemma run_to_end_token:
  "truthy token \<Longrightarrow>
   run_to_end login get post (start_with_token token s st) =
     (let (found, fx2, st2) =
            (case List.find (\<lambda>d. Some (sn d) = s) (dronesConfig st) of
               Some drone \<Rightarrow> (Some drone, [], st)
             | None \<Rightarrow> fetchDrone get s 0 st)
      in case found of
           None \<Rightarrow> (fx2, st2)
         | Some drone \<Rightarrow>
             (let (fx, st') = run_to_end login get post (start_with_drone token s drone st2)
              in (fx2 @ fx, st')))"
  by (simp add: start_with_token_def run_to_end_fetch case_prod_beta split: option.splits)

lemma run_to_end_falsy:
  "\<not> truthy token \<Longrightarrow> run_to_end login get post (start_with_token token s st) = ([], st)"
  by (simp add: start_with_token_def run_to_end_def)

text \<open>
  \<^verbatim>\<open>startStream\<close> as one function, used for the properties of a single call above, is the
  call of the event loop run to its end: the same requests in the same order, and the
  same state.
\<close>

lemma startStream_runs_to_end:
  "startStream now login get post s st = run_to_end login get post (startStream_call now s st)"
proof (cases "s \<in> startedStreams st")
  case True
  then show ?thesis by (simp add: startStream_def startStream_call_def run_to_end_def)
next
  case False
  show ?thesis
  proof (cases "truthy (cachedToken st) \<and>
         (case tokenExpiry st of None \<Rightarrow> True | Some expiry \<Rightarrow> expiry = 0 \<or> now < expiry)")
    case True
    then have t: "truthy (cachedToken st)" by simp
    show ?thesis
      using False True
      by (simp add: startStream_def startStream_call_def startStream_body_def getAcessToken_def
          run_to_end_token [OF t] run_to_end_drone case_prod_beta Let_def
          split: option.splits list.splits response.splits)
  next
    case miss: False
    have call: "startStream_call now s st = ([HttpLogin], st, Some (AwaitLogin s))"
      using False miss by (auto simp add: startStream_call_def)
    have g: "getAcessToken now login st =
        (case login of
           Failed \<Rightarrow> (JNull, [HttpLogin], st)
         | Ok token \<Rightarrow>
             if truthy token then
               (if has_slice token then (token, [HttpLogin], st\<lparr>cachedToken := token\<rparr>)
                else (JNull, [HttpLogin], st\<lparr>cachedToken := token\<rparr>))
             else (JNull, [HttpLogin], st))"
      using miss by (auto simp add: getAcessToken_def Let_def split: response.splits)
    show ?thesis
    proof (cases login)
      case Failed
      have g': "getAcessToken now Failed st = (JNull, [HttpLogin], st)"
        using g Failed by simp
      show ?thesis
        using False Failed
        by (simp add: startStream_def startStream_body_def g' call
            run_to_end_def complete_unfold)
    next
      case (Ok token)
      have g': "getAcessToken now (Ok token) st =
          (if truthy token then
             (if has_slice token then (token, [HttpLogin], st\<lparr>cachedToken := token\<rparr>)
              else (JNull, [HttpLogin], st\<lparr>cachedToken := token\<rparr>))
           else (JNull, [HttpLogin], st))"
        using g Ok by simp
      show ?thesis
      proof (cases "truthy token \<and> has_slice token")
        case False
        then show ?thesis
          using \<open>s \<notin> startedStreams st\<close> Ok
          by (auto simp add: startStream_def startStream_body_def g' call
              run_to_end_def complete_unfold Let_def)
      next
        case True
        then have t: "truthy token" by simp
        have c: "complete login get post (AwaitLogin s) st =
            run_to_end login get post (start_with_token token s (st\<lparr>cachedToken := token\<rparr>))"
          using True Ok by (simp add: complete_unfold Let_def)
        have g2: "getAcessToken now login st = (token, [HttpLogin], st\<lparr>cachedToken := token\<rparr>)"
          using g' Ok True by simp
        show ?thesis
          using \<open>s \<notin> startedStreams st\<close> t
          by (simp add: startStream_def startStream_body_def g2 call
              run_to_end_def [of _ _ _ "(_, _, Some (AwaitLogin _))"] c
              run_to_end_token [OF t] run_to_end_drone case_prod_beta Let_def
              split: option.splits list.splits response.splits)
      qed
    qed
  qed
qed

end
